theory Spec2Isabelle
  imports Complex_Main "HOL-Library.Word"
begin

section \<open>The ping algorithm of libparistraceroute (algorithms/ping.c)\<close>

text \<open>
  Conventions of the embedding.
  \<^item> \<open>uint8_t\<close>, \<open>unsigned int\<close> and \<open>size_t\<close> are words of 8, 32 and 64 bits
    (an LP64 target); their arithmetic wraps.
  \<^item> A C \<open>double\<close> is a real number; infinities and NaN are not modelled. The
    quotient that \<open>ping_loop_handler\<close> converts to \<open>int\<close> is rounded to the nearest
    double, since its integer part depends on the rounding; the delays and the
    statistics are computed exactly.
  \<^item> Undefined behaviour (reading through a null pointer, reading a position of an
    array that does not exist, a conversion to \<open>int\<close> that does not fit) is a value of
    type \<open>fault\<close>; the computation stops there.
  \<^item> Console output on \<open>stdout\<close> is not modelled; messages on \<open>stderr\<close> that
    mark a failure path are.
\<close>

type_synonym u8 = "8 word"
type_synonym uint = "32 word"
type_synonym size_t = "64 word"

datatype fault =
    NULL_DEREFERENCE
  | OUT_OF_RANGE_READ
  | DIVISION_BY_ZERO
  | INT_CONVERSION_OVERFLOW

subsection \<open>ICMP constants\<close>

text \<open>The values of \<open>netinet/ip_icmp.h\<close> and \<open>netinet/icmp6.h\<close>.\<close>

definition ICMP_UNREACH :: u8 where "ICMP_UNREACH = 3"
definition ICMP_UNREACH_NET :: u8 where "ICMP_UNREACH_NET = 0"
definition ICMP_UNREACH_HOST :: u8 where "ICMP_UNREACH_HOST = 1"
definition ICMP_UNREACH_PROTOCOL :: u8 where "ICMP_UNREACH_PROTOCOL = 2"
definition ICMP_UNREACH_PORT :: u8 where "ICMP_UNREACH_PORT = 3"
definition ICMP_REDIRECT :: u8 where "ICMP_REDIRECT = 5"
definition ICMP_REDIRECT_NET :: u8 where "ICMP_REDIRECT_NET = 0"
definition ICMP_TIMXCEED :: u8 where "ICMP_TIMXCEED = 11"
definition ICMP_TIMXCEED_INTRANS :: u8 where "ICMP_TIMXCEED_INTRANS = 0"
definition ICMP_TIMXCEED_REASS :: u8 where "ICMP_TIMXCEED_REASS = 1"
definition ICMP_PARAMPROB :: u8 where "ICMP_PARAMPROB = 12"

definition ICMP6_DST_UNREACH :: u8 where "ICMP6_DST_UNREACH = 1"
definition ICMP6_DST_UNREACH_NOROUTE :: u8 where "ICMP6_DST_UNREACH_NOROUTE = 0"
definition ICMP6_DST_UNREACH_ADDR :: u8 where "ICMP6_DST_UNREACH_ADDR = 3"
definition ICMP6_DST_UNREACH_NOPORT :: u8 where "ICMP6_DST_UNREACH_NOPORT = 4"
definition ICMP6_TIME_EXCEEDED :: u8 where "ICMP6_TIME_EXCEEDED = 3"
definition ICMP6_TIME_EXCEED_TRANSIT :: u8 where "ICMP6_TIME_EXCEED_TRANSIT = 0"
definition ICMP6_TIME_EXCEED_REASSEMBLY :: u8 where "ICMP6_TIME_EXCEED_REASSEMBLY = 1"
definition ICMP6_PARAM_PROB :: u8 where "ICMP6_PARAM_PROB = 4"
definition ICMP6_PARAMPROB_HEADER :: u8 where "ICMP6_PARAMPROB_HEADER = 0"
definition ICMP6_PARAMPROB_NEXTHEADER :: u8 where "ICMP6_PARAMPROB_NEXTHEADER = 1"
definition ICMP6_PARAMPROB_OPTION :: u8 where "ICMP6_PARAMPROB_OPTION = 2"
definition ND_REDIRECT :: u8 where "ND_REDIRECT = 137"

subsection \<open>Addresses, fields and probes\<close>

datatype address = IPv4 "32 word" | IPv6 "128 word"

text \<open>
  Modelled from the spec: \<open>address_compare\<close> (address.c is not among the sources).
  The address contract is an equality comparison independent of the address family;
  the callers only test the result against 0.
\<close>

definition address_compare :: "address \<Rightarrow> address \<Rightarrow> int" where
  "address_compare a b = (if a = b then 0 else 1)"

text \<open>
  The typed value of a header field (\<open>value_t\<close> with its \<open>fieldtype_t\<close> tag in
  field.h); only the two kinds that ping.c extracts are kept.
\<close>

datatype field_value = INT8 u8 | ADDRESS address

record probe =
  layer_fields :: "string \<Rightarrow> field_value option"
  delay :: real
  sending_time :: real
  recv_time :: real

text \<open>
  Modelled from the spec: \<open>probe_extract\<close> (probe.c is not among the sources) reads a
  named field by string key into a typed output and tells whether it could. An 8-bit
  output variable keeps its previous value when the field cannot be extracted: the
  second argument of \<open>probe_extract_u8\<close> is that previous value, the result is the
  value of the variable after the call.
\<close>

definition probe_extract_u8 :: "probe \<Rightarrow> string \<Rightarrow> u8 \<Rightarrow> u8" where
  "probe_extract_u8 p key old = (case layer_fields p key of Some (INT8 v) \<Rightarrow> v | _ \<Rightarrow> old)"

definition probe_extract_address :: "probe \<Rightarrow> string \<Rightarrow> address option" where
  "probe_extract_address p key = (case layer_fields p key of Some (ADDRESS a) \<Rightarrow> Some a | _ \<Rightarrow> None)"

definition probe_get_delay :: "probe \<Rightarrow> real" where
  "probe_get_delay p = delay p"

definition probe_get_sending_time :: "probe \<Rightarrow> real" where
  "probe_get_sending_time p = sending_time p"

definition probe_get_recv_time :: "probe \<Rightarrow> real" where
  "probe_get_recv_time p = recv_time p"

subsection \<open>ICMP error analysing\<close>

definition destination_network_unreachable :: "probe \<Rightarrow> bool" where
  "destination_network_unreachable reply =
     (let version = probe_extract_u8 reply ''version'' 0;
          code = probe_extract_u8 reply ''code'' 0;
          type = probe_extract_u8 reply ''type'' 0
      in if version = 4 then type = ICMP_UNREACH \<and> code = ICMP_UNREACH_HOST
         else type = ICMP6_DST_UNREACH \<and> code = ICMP6_DST_UNREACH_ADDR)"

definition destination_host_unreachable :: "probe \<Rightarrow> bool" where
  "destination_host_unreachable reply =
     (let version = probe_extract_u8 reply ''version'' 0;
          code = probe_extract_u8 reply ''code'' 0;
          type = probe_extract_u8 reply ''type'' 0
      in if version = 4 then type = ICMP_UNREACH \<and> code = ICMP_UNREACH_NET
         else type = ICMP6_DST_UNREACH \<and> code = ICMP6_DST_UNREACH_NOROUTE)"

definition destination_port_unreachable :: "probe \<Rightarrow> bool" where
  "destination_port_unreachable reply =
     (let version = probe_extract_u8 reply ''version'' 0;
          code = probe_extract_u8 reply ''code'' 0;
          type = probe_extract_u8 reply ''type'' 0
      in if version = 4 then type = ICMP_UNREACH \<and> code = ICMP_UNREACH_PORT
         else type = ICMP6_DST_UNREACH \<and> code = ICMP6_DST_UNREACH_NOPORT)"

definition destination_protocol_unreachable :: "probe \<Rightarrow> bool" where
  "destination_protocol_unreachable reply =
     (let version = probe_extract_u8 reply ''version'' 0;
          code = probe_extract_u8 reply ''code'' 0;
          type = probe_extract_u8 reply ''type'' 0
      in if version = 4 then type = ICMP_UNREACH \<and> code = ICMP_UNREACH_PROTOCOL
         else type = ICMP6_PARAM_PROB \<and> code = ICMP6_PARAMPROB_NEXTHEADER)"

definition ttl_exceeded :: "probe \<Rightarrow> bool" where
  "ttl_exceeded reply =
     (let version = probe_extract_u8 reply ''version'' 0;
          code = probe_extract_u8 reply ''code'' 0;
          type = probe_extract_u8 reply ''type'' 0
      in if version = 4 then type = ICMP_TIMXCEED \<and> code = ICMP_TIMXCEED_INTRANS
         else type = ICMP6_TIME_EXCEEDED \<and> code = ICMP6_TIME_EXCEED_TRANSIT)"

definition fragment_reassembly_time_exceeded :: "probe \<Rightarrow> bool" where
  "fragment_reassembly_time_exceeded reply =
     (let version = probe_extract_u8 reply ''version'' 0;
          code = probe_extract_u8 reply ''code'' 0;
          type = probe_extract_u8 reply ''type'' 0
      in if version = 4 then type = ICMP_TIMXCEED \<and> code = ICMP_TIMXCEED_REASS
         else type = ICMP6_TIME_EXCEEDED \<and> code = ICMP6_TIME_EXCEED_REASSEMBLY)"

definition redirect :: "probe \<Rightarrow> bool" where
  "redirect reply =
     (let version = probe_extract_u8 reply ''version'' 0;
          code = probe_extract_u8 reply ''code'' 0;
          type = probe_extract_u8 reply ''type'' 0
      in if version = 4 then type = ICMP_REDIRECT \<and> code = ICMP_REDIRECT_NET
         else type = ND_REDIRECT)"

definition parameter_problem :: "probe \<Rightarrow> bool" where
  "parameter_problem reply =
     (let version = probe_extract_u8 reply ''version'' 0;
          code = probe_extract_u8 reply ''code'' 0;
          type = probe_extract_u8 reply ''type'' 0
      in if version = 4 then type = ICMP_PARAMPROB
         else type = ICMP6_PARAM_PROB
              \<and> (code = ICMP6_PARAMPROB_HEADER \<or> code = ICMP6_PARAMPROB_OPTION))"

definition destination_reached :: "address \<Rightarrow> probe \<Rightarrow> bool" where
  "destination_reached dst_addr reply =
     (case probe_extract_address reply ''src_ip'' of
        Some discovered_addr \<Rightarrow> address_compare dst_addr discovered_addr = 0
      | None \<Rightarrow> False)"

subsection \<open>Conversions of C\<close>

definition INT_MIN :: int where "INT_MIN = - (2 ^ 31)"
definition INT_MAX :: int where "INT_MAX = 2 ^ 31 - 1"

definition trunc_to_zero :: "real \<Rightarrow> int" where
  "trunc_to_zero x = (if 0 \<le> x then \<lfloor>x\<rfloor> else - \<lfloor>- x\<rfloor>)"

text \<open>
  The conversion of a \<open>double\<close> to \<open>int\<close> drops the fractional part; it is undefined
  when the result does not fit.
\<close>

definition double_to_int :: "real \<Rightarrow> fault + int" where
  "double_to_int x =
     (let t = trunc_to_zero x
      in if INT_MIN \<le> t \<and> t \<le> INT_MAX then Inr t else Inl INT_CONVERSION_OVERFLOW)"

text \<open>\<open>int abs(int)\<close> of stdlib.h; undefined at \<open>INT_MIN\<close>.\<close>

definition abs_c :: "int \<Rightarrow> fault + int" where
  "abs_c j = (if j = INT_MIN then Inl INT_CONVERSION_OVERFLOW else Inr \<bar>j\<bar>)"

text \<open>
  Modelled from the spec: the macro \<open>MIN\<close> (its header is not among the sources), the
  minimum of its two arguments. In ping.c the arguments are an \<open>int\<close> and an
  \<open>unsigned int\<close>, so C compares and returns them as \<open>unsigned int\<close>.
\<close>

definition MIN_uint :: "uint \<Rightarrow> uint \<Rightarrow> uint" where
  "MIN_uint x y = (if x < y then x else y)"

subsection \<open>Division of doubles\<close>

text \<open>
  The quotient of two doubles is the exact quotient rounded to the nearest number with a
  53-bit significand, ties to the even significand (IEEE 754 binary64, the default
  rounding). The range of the exponent is not bounded here: a quotient beyond the range
  of a double is beyond the range of \<open>int\<close> as well, and a quotient below the normal
  range is converted to 0 with or without the bound.

  \<open>ilog2 n\<close> is the position of the leading bit of \<open>n\<close>, \<open>pow2 k\<close> the power of two
  with an integer exponent, and \<open>exponent x\<close>, for a positive \<open>x\<close>, the \<open>k\<close> with
  \<open>pow2 k \<le> x < pow2 (k + 1)\<close>.
\<close>

function ilog2 :: "nat \<Rightarrow> nat" where
  "ilog2 n = (if n < 2 then 0 else ilog2 (n div 2) + 1)"
  by pat_completeness auto
termination
  by (relation "measure id") auto

declare ilog2.simps [simp del]

definition pow2 :: "int \<Rightarrow> real" where
  "pow2 k = (if 0 \<le> k then 2 ^ nat k else 1 / 2 ^ nat (- k))"

definition exponent :: "real \<Rightarrow> int" where
  "exponent x =
     (if 1 \<le> x then int (ilog2 (nat \<lfloor>x\<rfloor>))
      else - int (ilog2 (nat (\<lceil>1 / x\<rceil> - 1))) - 1)"

definition round_half_even :: "real \<Rightarrow> int" where
  "round_half_even y =
     (let f = \<lfloor>y\<rfloor>
      in if y - of_int f < 1 / 2 then f
         else if 1 / 2 < y - of_int f then f + 1
         else if even f then f else f + 1)"

definition round_double :: "real \<Rightarrow> real" where
  "round_double x =
     (if x = 0 then 0
      else if 0 < x
      then pow2 (exponent x - 52) * of_int (round_half_even (x / pow2 (exponent x - 52)))
      else - (pow2 (exponent (- x) - 52)
              * of_int (round_half_even (- x / pow2 (exponent (- x) - 52)))))"

definition double_div :: "real \<Rightarrow> real \<Rightarrow> real" where
  "double_div x y = round_double (x / y)"

subsection \<open>Statistics computing\<close>

text \<open>
  A \<open>dynarray_t\<close> of \<open>double *\<close> is the list of the numbers pointed to.
  Modelled from the spec: \<open>dynarray_get_ith_element\<close> (dynarray.c is not among the
  sources) gives the element at a position of the sequence; \<open>read_element\<close> is
  that call followed by the read through the pointer it returns, which has no
  defined result when the position is not below the size.
\<close>

definition dynarray_get_size :: "'a list \<Rightarrow> nat" where
  "dynarray_get_size array = length array"

definition read_element :: "'a list \<Rightarrow> nat \<Rightarrow> fault + 'a" where
  "read_element array i =
     (if i < dynarray_get_size array then Inr (array ! i) else Inl OUT_OF_RANGE_READ)"

function minimum_loop :: "real list \<Rightarrow> nat \<Rightarrow> real \<Rightarrow> real" where
  "minimum_loop array i current_min =
     (if i < dynarray_get_size array
      then minimum_loop array (i + 1)
             (if array ! i < current_min then array ! i else current_min)
      else current_min)"
  by pat_completeness auto
termination
  by (relation "measure (\<lambda>(array, i, m). length array - i)") (auto simp: dynarray_get_size_def)

declare minimum_loop.simps [simp del]

definition compute_minimum :: "real list \<Rightarrow> fault + real" where
  "compute_minimum array =
     (case read_element array 0 of
        Inl f \<Rightarrow> Inl f
      | Inr current_min \<Rightarrow> Inr (minimum_loop array 1 current_min))"

function maximum_loop :: "real list \<Rightarrow> nat \<Rightarrow> real \<Rightarrow> real" where
  "maximum_loop array i current_max =
     (if i < dynarray_get_size array
      then maximum_loop array (i + 1)
             (if array ! i > current_max then array ! i else current_max)
      else current_max)"
  by pat_completeness auto
termination
  by (relation "measure (\<lambda>(array, i, m). length array - i)") (auto simp: dynarray_get_size_def)

declare maximum_loop.simps [simp del]

definition compute_maximum :: "real list \<Rightarrow> fault + real" where
  "compute_maximum array =
     (case read_element array 0 of
        Inl f \<Rightarrow> Inl f
      | Inr current_max \<Rightarrow> Inr (maximum_loop array 1 current_max))"

function mean_loop :: "real list \<Rightarrow> nat \<Rightarrow> real \<Rightarrow> real" where
  "mean_loop array i sum_acc =
     (if i < dynarray_get_size array then mean_loop array (i + 1) (sum_acc + array ! i) else sum_acc)"
  by pat_completeness auto
termination
  by (relation "measure (\<lambda>(array, i, s). length array - i)") (auto simp: dynarray_get_size_def)

declare mean_loop.simps [simp del]

text \<open>The division \<open>sum / array_length\<close> has the divisor 0 when the array is empty.\<close>

definition compute_mean :: "real list \<Rightarrow> fault + real" where
  "compute_mean array =
     (let array_length = dynarray_get_size array;
          sum_acc = mean_loop array 0 0
      in if array_length = 0 then Inl DIVISION_BY_ZERO else Inr (sum_acc / real array_length))"

text \<open>
  \<open>sum += abs(x - mean)\<close>: \<open>abs\<close> takes an \<open>int\<close>, so the difference is converted to
  \<open>int\<close> first and the integer result is converted back.
\<close>

function deviation_loop :: "real list \<Rightarrow> real \<Rightarrow> nat \<Rightarrow> real \<Rightarrow> fault + real" where
  "deviation_loop array mean i sum_acc =
     (if i < dynarray_get_size array
      then (case double_to_int (array ! i - mean) of
              Inl f \<Rightarrow> Inl f
            | Inr j \<Rightarrow>
               (case abs_c j of
                  Inl f \<Rightarrow> Inl f
                | Inr a \<Rightarrow> deviation_loop array mean (i + 1) (sum_acc + real_of_int a)))
      else Inr sum_acc)"
  by pat_completeness auto
termination
  by (relation "measure (\<lambda>(array, mean, i, s). length array - i)")
     (auto simp: dynarray_get_size_def)

declare deviation_loop.simps [simp del]

definition compute_mean_deviation :: "real list \<Rightarrow> fault + real" where
  "compute_mean_deviation array =
     (let array_length = dynarray_get_size array
      in case compute_mean array of
           Inl f \<Rightarrow> Inl f
         | Inr mean \<Rightarrow>
            (case deviation_loop array mean 0 0 of
               Inl f \<Rightarrow> Inl f
             | Inr sum_acc \<Rightarrow>
                if array_length = 0 then Inl DIVISION_BY_ZERO
                else Inr (sum_acc / real array_length)))"

text \<open>
  The mean deviation as the specification words it: the sum of the exact absolute
  differences to the mean, divided by the number of samples.
\<close>

definition spec_mean :: "real list \<Rightarrow> real" where
  "spec_mean xs = sum_list xs / real (length xs)"

definition spec_mean_deviation :: "real list \<Rightarrow> real" where
  "spec_mean_deviation xs = (\<Sum>x\<leftarrow>xs. \<bar>x - spec_mean xs\<bar>) / real (length xs)"

subsection \<open>Ping algorithm's data\<close>

text \<open>
  \<open>ping_data_t\<close> (declared in ping.h, not among the sources): three \<open>size_t\<close>
  counters, the probes sent (pointers into the store of probes) and the measured
  round-trip times; \<open>rtt_results\<close> may be a null pointer.
\<close>

record ping_data =
  num_replies :: size_t
  num_losses :: size_t
  num_probes_in_flight :: size_t
  probes :: "nat list"
  rtt_results :: "real list option"

record ping_options =
  dst_addr :: address
  interval :: real
  count :: uint
  max_ttl :: u8
  do_resolv :: bool
  show_timestamp :: bool
  is_quiet :: bool

text \<open>What \<open>ping_dump_statistics\<close> writes: the error message, or the two lines of figures.\<close>

record statistics =
  transmitted :: size_t
  received :: size_t
  loss :: int
  rtt_max :: real
  rtt_min :: real
  rtt_avg :: real
  rtt_mdev :: real

datatype dump = STATISTICS_ERROR | STATISTICS statistics

definition ping_dump_statistics :: "ping_data \<Rightarrow> fault + dump" where
  "ping_dump_statistics ping_data =
     (case rtt_results ping_data of
        None \<Rightarrow> Inr STATISTICS_ERROR
      | Some rtts \<Rightarrow>
         (case compute_maximum rtts of Inl f \<Rightarrow> Inl f | Inr max_v \<Rightarrow>
          (case compute_minimum rtts of Inl f \<Rightarrow> Inl f | Inr min_v \<Rightarrow>
           (case compute_mean rtts of Inl f \<Rightarrow> Inl f | Inr avg \<Rightarrow>
            (case compute_mean_deviation rtts of Inl f \<Rightarrow> Inl f | Inr mdev \<Rightarrow>
             (if num_replies ping_data = 0 then Inl DIVISION_BY_ZERO
              else (case double_to_int
                           (real (unat (num_losses ping_data))
                              / real (unat (num_replies ping_data)) * 100) of
                      Inl f \<Rightarrow> Inl f
                    | Inr percent \<Rightarrow>
                       Inr (STATISTICS
                             \<lparr>transmitted = num_replies ping_data,
                              received = num_replies ping_data - num_losses ping_data,
                              loss = percent,
                              rtt_max = max_v, rtt_min = min_v, rtt_avg = avg,
                              rtt_mdev = mdev\<rparr>))))))))"

subsection \<open>Events and the framework\<close>

datatype probe_reply = Probe_reply (the_probe: probe) (the_reply: probe)

text \<open>The events the framework delivers, each with the data it carries.\<close>

datatype event =
    ALGORITHM_INIT
  | PROBE_REPLY probe_reply
  | PROBE_TIMEOUT probe
  | ALGORITHM_TERMINATED
  | ALGORITHM_ERROR
  | OTHER_EVENT nat

datatype ping_event_type =
    PING_PROBE_REPLY
  | PING_DST_NET_UNREACHABLE
  | PING_DST_HOST_UNREACHABLE
  | PING_DST_PROT_UNREACHABLE
  | PING_DST_PORT_UNREACHABLE
  | PING_TTL_EXCEEDED_TRANSIT
  | PING_TIME_EXCEEDED_REASSEMBLY
  | PING_REDIRECT
  | PING_PARAMETER_PROBLEM
  | PING_GEN_ERROR
  | PING_TIMEOUT
  | PING_ALL_PROBES_SENT
  | PING_WAIT

datatype event_data = REPLY_DATA probe_reply | PROBE_DATA probe | NO_DATA

text \<open>\<open>event_create(type, data, ...)\<close>\<close>

datatype ping_event = Ping_event ping_event_type event_data

text \<open>
  The calls the handler makes into the framework, in the order it makes them:
  \<open>pt_raise_event\<close>, \<open>pt_algorithm_throw\<close>, \<open>pt_send_probe\<close> (with the address of
  the probe), \<open>pt_raise_terminated\<close>, \<open>pt_raise_error\<close>, \<open>event_free\<close>, and a
  message on \<open>stderr\<close>.
\<close>

datatype action =
    Raise_event ping_event
  | Algorithm_throw event
  | Send_probe nat
  | Raise_terminated
  | Raise_error
  | Event_free
  | Stderr string

text \<open>
  The ambient values the code reads: \<open>options_network_get_timeout()\<close> and the
  constant \<open>DELAY_BEST_EFFORT\<close> (probe.h is not among the sources, so the constant is
  a parameter).
\<close>

record env =
  network_timeout :: real
  delay_best_effort :: real

text \<open>
  What the calls whose result the code cannot control answer during one invocation of
  a handler: whether \<open>ping_data_create\<close> can allocate, how the dispatch of the i-th
  probe of a batch ends, and whether \<open>ping_handler\<close> can allocate and store a sample.
\<close>

datatype send_outcome = DUP_FAILS | PUSH_FAILS | SEND_FAILS | SEND_OK

record answers =
  data_create_ok :: bool
  send_outcomes :: "nat \<Rightarrow> send_outcome"
  rtt_malloc_ok :: bool
  rtt_push_ok :: bool

text \<open>
  The store of probe objects: the address of a probe is its position. Modelled from
  the spec: \<open>probe_dup\<close> (probe.c is not among the sources) makes a deep copy, a new
  object with the contents of the original, or fails; \<open>probe_set_delay\<close> writes the
  delay of the object at the address.
\<close>

type_synonym heap = "probe list"

definition probe_dup :: "bool \<Rightarrow> heap \<Rightarrow> nat \<Rightarrow> (heap \<times> nat) option" where
  "probe_dup ok h p = (if ok \<and> p < length h then Some (h @ [h ! p], length h) else None)"

definition probe_set_delay :: "heap \<Rightarrow> nat \<Rightarrow> real \<Rightarrow> heap" where
  "probe_set_delay h p d = h[p := (h ! p)\<lparr>delay := d\<rparr>]"

subsection \<open>Ping default handler\<close>

definition delay_get :: "probe \<Rightarrow> probe \<Rightarrow> real" where
  "delay_get probe reply = probe_get_recv_time reply - probe_get_sending_time probe"

text \<open>
  \<open>ping_handler\<close>: of its cases only \<open>PING_PROBE_REPLY\<close> changes the data, by storing
  the delay in \<open>rtt_results\<close>; the result of \<open>malloc\<close> is written through unchecked and
  the result of \<open>dynarray_push_element\<close> is not looked at.
\<close>

definition ping_handler ::
  "answers \<Rightarrow> ping_event \<Rightarrow> ping_options \<Rightarrow> ping_data \<Rightarrow> fault + ping_data" where
  "ping_handler orc ping_event ping_options ping_data =
     (case ping_event of
        Ping_event PING_PROBE_REPLY d \<Rightarrow>
          (case d of
             REPLY_DATA pr \<Rightarrow>
               if \<not> rtt_malloc_ok orc then Inl NULL_DEREFERENCE
               else (case rtt_results ping_data of
                       None \<Rightarrow> Inl NULL_DEREFERENCE
                     | Some rtts \<Rightarrow>
                        Inr (if rtt_push_ok orc
                             then ping_data\<lparr>rtt_results :=
                                    Some (rtts @ [delay_get (the_probe pr) (the_reply pr)])\<rparr>
                             else ping_data))
           | _ \<Rightarrow> Inl NULL_DEREFERENCE)
      | Ping_event _ _ \<Rightarrow> Inr ping_data)"

subsection \<open>Ping algorithm\<close>

definition send_ping_probe ::
  "env \<Rightarrow> send_outcome \<Rightarrow> heap \<Rightarrow> ping_data \<Rightarrow> nat \<Rightarrow> nat
     \<Rightarrow> bool \<times> heap \<times> ping_data \<times> action list" where
  "send_ping_probe e r h ping_data probe_skel i =
     (case probe_dup (r \<noteq> DUP_FAILS) h probe_skel of
        None \<Rightarrow> (False, h, ping_data, [Stderr ''Error in send_ping_probe''])
      | Some (h1, probe) \<Rightarrow>
         (let h2 = (if probe_get_delay (h1 ! probe) \<noteq> delay_best_effort e
                    then probe_set_delay h1 probe (real i * probe_get_delay (h1 ! probe_skel))
                    else h1)
          in if r = PUSH_FAILS
             then (False, h2, ping_data, [Stderr ''Error in send_ping_probe''])
             else (r = SEND_OK, h2, ping_data\<lparr>probes := probes ping_data @ [probe]\<rparr>,
                   [Send_probe probe])))"

text \<open>
  The loop \<open>for (i = 0; i < num_probes; ++i)\<close> of \<open>send_ping_probes\<close>; the index stays
  below \<open>num_probes\<close>, so it is a natural number.
\<close>

function send_ping_probes_loop ::
  "env \<Rightarrow> answers \<Rightarrow> nat \<Rightarrow> nat \<Rightarrow> nat \<Rightarrow> heap \<Rightarrow> ping_data
     \<Rightarrow> bool \<times> heap \<times> ping_data \<times> action list" where
  "send_ping_probes_loop e orc probe_skel num_probes i h ping_data =
     (if i < num_probes
      then (case send_ping_probe e (send_outcomes orc (i + 1)) h ping_data probe_skel (i + 1) of
              (ok, h1, d1, acts1) \<Rightarrow>
                if \<not> ok then (False, h1, d1, acts1)
                else (case send_ping_probes_loop e orc probe_skel num_probes (i + 1) h1 d1 of
                        (ok2, h2, d2, acts2) \<Rightarrow> (ok2, h2, d2, acts1 @ acts2)))
      else (True, h, ping_data, []))"
  by pat_completeness auto
termination
  by (relation "measure (\<lambda>(e, orc, skel, n, i, h, d). n - i)") auto

declare send_ping_probes_loop.simps [simp del]

definition send_ping_probes ::
  "env \<Rightarrow> answers \<Rightarrow> heap \<Rightarrow> ping_data \<Rightarrow> nat \<Rightarrow> size_t
     \<Rightarrow> bool \<times> heap \<times> ping_data \<times> action list" where
  "send_ping_probes e orc h ping_data probe_skel num_probes =
     send_ping_probes_loop e orc probe_skel (unat num_probes) 0 h ping_data"

definition ping_data_create :: "bool \<Rightarrow> ping_data option" where
  "ping_data_create ok =
     (if ok
      then Some \<lparr>num_replies = 0, num_losses = 0, num_probes_in_flight = 0,
                 probes = [], rtt_results = Some []\<rparr>
      else None)"

text \<open>The chain of tests of the case \<open>PROBE_REPLY\<close>, in its order.\<close>

definition reply_event_type :: "address \<Rightarrow> probe \<Rightarrow> ping_event_type" where
  "reply_event_type dst reply =
     (if destination_reached dst reply then PING_PROBE_REPLY
      else if destination_network_unreachable reply then PING_DST_NET_UNREACHABLE
      else if destination_host_unreachable reply then PING_DST_HOST_UNREACHABLE
      else if destination_protocol_unreachable reply then PING_DST_PROT_UNREACHABLE
      else if destination_port_unreachable reply then PING_DST_PORT_UNREACHABLE
      else if ttl_exceeded reply then PING_TTL_EXCEEDED_TRANSIT
      else if fragment_reassembly_time_exceeded reply then PING_TIME_EXCEEDED_REASSEMBLY
      else if redirect reply then PING_REDIRECT
      else if parameter_problem reply then PING_PARAMETER_PROBLEM
      else PING_GEN_ERROR)"

text \<open>
  \<open>(int)(options->count - data->num_replies) > 0\<close>: the difference is taken in
  \<open>size_t\<close>, its low 32 bits are read as a signed number.
\<close>

definition more_to_send :: "ping_options \<Rightarrow> ping_data \<Rightarrow> size_t" where
  "more_to_send options d =
     (if 0 < sint (ucast (ucast (count options) - num_replies d :: size_t) :: 32 word)
      then 1 else 0)"

text \<open>
  The state of the handler after its \<open>switch\<close>: it jumped to \<open>FAILURE\<close>, or it goes on
  with the local pointer \<open>data\<close>, the contents of \<open>*pdata\<close>, \<open>num_probes_to_send\<close>
  and the calls made so far.
  In the case \<open>ALGORITHM_INIT\<close> the quotient is the quotient of two doubles; a zero
  interval makes it infinite or not a number, whose conversion to \<open>int\<close> is undefined.
\<close>

datatype switched =
    FAILURE "action list"
  | CONTINUE "ping_data option" "ping_data option" size_t "action list"

definition EINVAL :: int where "EINVAL = 22"

definition handler_switch ::
  "env \<Rightarrow> answers \<Rightarrow> event \<Rightarrow> ping_data option \<Rightarrow> ping_options option
     \<Rightarrow> fault + switched" where
  "handler_switch e orc ev pdata opts =
     (case ev of
        ALGORITHM_INIT \<Rightarrow>
          (case opts of
             None \<Rightarrow> Inr (FAILURE [Stderr ''Invalid ping options''])
           | Some options \<Rightarrow>
              (case ping_data_create (data_create_ok orc) of
                 None \<Rightarrow> Inr (FAILURE [])
               | Some d \<Rightarrow>
                  if interval options = 0 then Inl DIVISION_BY_ZERO
                  else (case double_to_int
                               (double_div (network_timeout e) (interval options)) of
                          Inl f \<Rightarrow> Inl f
                        | Inr q \<Rightarrow>
                           Inr (CONTINUE (Some d) (Some d)
                                  (ucast (MIN_uint (word_of_int q) (count options))) []))))
      | PROBE_REPLY pr \<Rightarrow>
          (case pdata of
             None \<Rightarrow> Inl NULL_DEREFERENCE
           | Some d0 \<Rightarrow>
              (let d = d0\<lparr>num_replies := num_replies d0 + 1,
                          num_probes_in_flight := num_probes_in_flight d0 - 1\<rparr>
               in case opts of
                    None \<Rightarrow> Inl NULL_DEREFERENCE
                  | Some options \<Rightarrow>
                     Inr (CONTINUE (Some d) (Some d) (more_to_send options d)
                            [Raise_event
                               (Ping_event (reply_event_type (dst_addr options) (the_reply pr))
                                  (REPLY_DATA pr))])))
      | PROBE_TIMEOUT probe \<Rightarrow>
          (case pdata of
             None \<Rightarrow> Inl NULL_DEREFERENCE
           | Some d0 \<Rightarrow>
              (let d = d0\<lparr>num_replies := num_replies d0 + 1,
                          num_losses := num_losses d0 + 1,
                          num_probes_in_flight := num_probes_in_flight d0 - 1\<rparr>
               in case opts of
                    None \<Rightarrow> Inl NULL_DEREFERENCE
                  | Some options \<Rightarrow>
                     Inr (CONTINUE (Some d) (Some d) (more_to_send options d)
                            [Raise_event (Ping_event PING_TIMEOUT (PROBE_DATA probe))])))
      | ALGORITHM_TERMINATED \<Rightarrow> Inr (CONTINUE None None 0 [])
      | ALGORITHM_ERROR \<Rightarrow> Inr (FAILURE [])
      | OTHER_EVENT n \<Rightarrow> Inr (CONTINUE None pdata 0 []))"

text \<open>
  The statements after the forwarding of the event: they read the counters through the
  local pointer \<open>data\<close>, which is null unless the \<open>switch\<close> assigned it. Every case
  of the \<open>switch\<close> that assigns \<open>data\<close> has read through \<open>options\<close> before.
\<close>

definition handler_dispatch ::
  "env \<Rightarrow> answers \<Rightarrow> heap \<Rightarrow> ping_data option \<Rightarrow> nat \<Rightarrow> ping_options option \<Rightarrow> size_t
     \<Rightarrow> fault + (heap \<times> ping_data \<times> action list)" where
  "handler_dispatch e orc h data probe_skel opts num_probes_to_send =
     (case data of
        None \<Rightarrow> Inl NULL_DEREFERENCE
      | Some d \<Rightarrow>
         (case opts of
            None \<Rightarrow> Inl NULL_DEREFERENCE
          | Some options \<Rightarrow>
             if num_probes_to_send > 0
                \<and> num_replies d + num_probes_in_flight d \<noteq> ucast (count options)
             then (case send_ping_probes e orc h d probe_skel num_probes_to_send of
                     (ok, h1, d1, acts) \<Rightarrow>
                       Inr (h1,
                            d1\<lparr>num_probes_in_flight :=
                                 num_probes_in_flight d1 + num_probes_to_send\<rparr>,
                            acts))
             else if num_probes_in_flight d = 0
             then Inr (h, d, [Raise_event (Ping_event PING_ALL_PROBES_SENT NO_DATA),
                              Raise_terminated])
             else Inr (h, d, [Raise_event (Ping_event PING_WAIT NO_DATA)])))"

text \<open>
  \<open>ping_loop_handler\<close>: the value returned, the store of probes, the contents of
  \<open>*pdata\<close> and the calls made, or the fault at which it stops.
\<close>

definition ping_loop_handler ::
  "env \<Rightarrow> answers \<Rightarrow> heap \<Rightarrow> event \<Rightarrow> ping_data option \<Rightarrow> nat \<Rightarrow> ping_options option
     \<Rightarrow> fault + (int \<times> heap \<times> ping_data option \<times> action list)" where
  "ping_loop_handler e orc h ev pdata probe_skel opts =
     (case handler_switch e orc ev pdata opts of
        Inl f \<Rightarrow> Inl f
      | Inr (FAILURE acts) \<Rightarrow> Inr (EINVAL, h, pdata, acts @ [Event_free, Raise_error])
      | Inr (CONTINUE data pdata1 num_probes_to_send acts) \<Rightarrow>
         (case handler_dispatch e orc h data probe_skel opts num_probes_to_send of
            Inl f \<Rightarrow> Inl f
          | Inr (h1, d1, acts1) \<Rightarrow>
             Inr (0, h1, Some d1, acts @ [Algorithm_throw ev] @ acts1 @ [Event_free])))"

subsection \<open>Observations and example values\<close>

text \<open>The types of the outcome events raised by a sequence of calls, in their order.\<close>

fun raised :: "action list \<Rightarrow> ping_event_type list" where
  "raised [] = []"
| "raised (Raise_event (Ping_event t d) # acts) = t # raised acts"
| "raised (a # acts) = raised acts"

text \<open>A synthetic reply with the four fields the handler extracts.\<close>

definition make_reply :: "u8 \<Rightarrow> u8 \<Rightarrow> u8 \<Rightarrow> address \<Rightarrow> probe" where
  "make_reply v t c a =
     \<lparr>layer_fields = [''version'' \<mapsto> INT8 v, ''type'' \<mapsto> INT8 t, ''code'' \<mapsto> INT8 c,
                       ''src_ip'' \<mapsto> ADDRESS a],
      delay = 0, sending_time = 0, recv_time = 0\<rparr>"

definition all_ok :: answers where
  "all_ok = \<lparr>data_create_ok = True, send_outcomes = (\<lambda>i. SEND_OK),
             rtt_malloc_ok = True, rtt_push_ok = True\<rparr>"

definition env0 :: env where
  "env0 = \<lparr>network_timeout = 3, delay_best_effort = - 1\<rparr>"

definition options_to :: "address \<Rightarrow> uint \<Rightarrow> ping_options" where
  "options_to a n =
     \<lparr>dst_addr = a, interval = 1, count = n, max_ttl = 64,
      do_resolv = True, show_timestamp = False, is_quiet = False\<rparr>"

definition data0 :: "size_t \<Rightarrow> size_t \<Rightarrow> ping_data" where
  "data0 r f = \<lparr>num_replies = r, num_losses = 0, num_probes_in_flight = f,
                probes = [], rtt_results = Some []\<rparr>"

subsection \<open>Dispatch: what the clones are\<close>

text \<open>
  The clone that \<open>send_ping_probe\<close> makes of a skeleton \<open>p\<close> as the i-th probe of a
  batch: with the delay \<open>i * delay p\<close> when the skeleton's delay is not the sentinel,
  a plain copy otherwise.
\<close>

definition staggered :: "probe \<Rightarrow> nat \<Rightarrow> probe" where
  "staggered p i = p\<lparr>delay := real i * probe_get_delay p\<rparr>"

definition clone_of :: "env \<Rightarrow> probe \<Rightarrow> nat \<Rightarrow> probe" where
  "clone_of e p i =
     (if probe_get_delay p \<noteq> delay_best_effort e then staggered p i else p)"

text \<open>The addresses handed to \<open>pt_send_probe\<close> by a sequence of calls, in their order.\<close>

fun sent :: "action list \<Rightarrow> nat list" where
  "sent [] = []"
| "sent (Send_probe p # acts) = p # sent acts"
| "sent (a # acts) = sent acts"

text \<open>No dispatch of the probes \<open>i + 1, ..., n\<close> of a batch fails.\<close>

definition all_sent :: "answers \<Rightarrow> nat \<Rightarrow> nat \<Rightarrow> bool" where
  "all_sent orc i n = list_all (\<lambda>j. send_outcomes orc j = SEND_OK) [i + 1 ..< n + 1]"

subsection \<open>Runs of one instance\<close>

text \<open>
  Modelled from the spec: the caller of the algorithm (its loop handler is not among the
  sources) hands every outcome event raised by \<open>ping_loop_handler\<close> to \<open>ping_handler\<close>,
  with the options and the data of the instance. \<open>deliver\<close> does so for the events of
  one invocation, in their order; \<open>ping_step\<close> is one invocation of
  \<open>ping_loop_handler\<close> followed by these deliveries, so that the state after it is the
  state in which the next event is handled.
\<close>

fun deliver :: "answers \<Rightarrow> ping_options \<Rightarrow> action list \<Rightarrow> ping_data \<Rightarrow> fault + ping_data" where
  "deliver orc options [] d = Inr d"
| "deliver orc options (Raise_event ev # acts) d =
     (case ping_handler orc ev options d of
        Inl f \<Rightarrow> Inl f
      | Inr d1 \<Rightarrow> deliver orc options acts d1)"
| "deliver orc options (a # acts) d = deliver orc options acts d"

definition ping_step ::
  "env \<Rightarrow> answers \<Rightarrow> heap \<Rightarrow> event \<Rightarrow> ping_data option \<Rightarrow> nat \<Rightarrow> ping_options option
     \<Rightarrow> fault + (int \<times> heap \<times> ping_data option \<times> action list)" where
  "ping_step e orc h ev pdata probe_skel opts =
     (case ping_loop_handler e orc h ev pdata probe_skel opts of
        Inl f \<Rightarrow> Inl f
      | Inr (r, h1, pdata1, acts) \<Rightarrow>
         (case pdata1 of
            None \<Rightarrow> Inr (r, h1, None, acts)
          | Some d \<Rightarrow>
             (case opts of
                None \<Rightarrow> Inr (r, h1, Some d, acts)
              | Some options \<Rightarrow>
                 (case deliver orc options acts d of
                    Inl f \<Rightarrow> Inl f
                  | Inr d1 \<Rightarrow> Inr (r, h1, Some d1, acts)))))"

text \<open>
  A run handles a sequence of events, each with the answers of the environment during
  its invocation, and stops at the first fault. It records, for every invocation, the
  calls made and the contents of \<open>*pdata\<close> at its exit.
\<close>

fun run ::
  "env \<Rightarrow> nat \<Rightarrow> ping_options option \<Rightarrow> (event \<times> answers) list \<Rightarrow> heap \<Rightarrow> ping_data option
     \<Rightarrow> fault + (heap \<times> ping_data option \<times> (action list \<times> ping_data option) list)" where
  "run e probe_skel opts [] h pdata = Inr (h, pdata, [])"
| "run e probe_skel opts ((ev, orc) # evs) h pdata =
     (case ping_step e orc h ev pdata probe_skel opts of
        Inl f \<Rightarrow> Inl f
      | Inr (r, h1, pdata1, acts) \<Rightarrow>
         (case run e probe_skel opts evs h1 pdata1 of
            Inl f \<Rightarrow> Inl f
          | Inr (h2, pdata2, entries) \<Rightarrow> Inr (h2, pdata2, (acts, pdata1) # entries)))"

definition final_data ::
  "fault + (heap \<times> ping_data option \<times> (action list \<times> ping_data option) list)
     \<Rightarrow> ping_data option" where
  "final_data r = (case r of Inl f \<Rightarrow> None | Inr (h, pdata, entries) \<Rightarrow> pdata)"

text \<open>The calls made during a run, in their order; none when the run stops at a fault.\<close>

definition calls ::
  "fault + (heap \<times> ping_data option \<times> (action list \<times> ping_data option) list)
     \<Rightarrow> action list" where
  "calls r = (case r of Inl f \<Rightarrow> [] | Inr (h, pdata, entries) \<Rightarrow> concat (map fst entries))"

definition probe_event :: "event \<Rightarrow> bool" where
  "probe_event ev = (case ev of PROBE_REPLY pr \<Rightarrow> True | PROBE_TIMEOUT p \<Rightarrow> True | _ \<Rightarrow> False)"

definition is_timeout :: "event \<Rightarrow> bool" where
  "is_timeout ev = (case ev of PROBE_TIMEOUT p \<Rightarrow> True | _ \<Rightarrow> False)"

text \<open>Replies whose source is, or is not, the destination.\<close>

definition from_destination :: "ping_options \<Rightarrow> event \<Rightarrow> bool" where
  "from_destination options ev =
     (case ev of
        PROBE_REPLY pr \<Rightarrow> destination_reached (dst_addr options) (the_reply pr)
      | _ \<Rightarrow> False)"

definition from_elsewhere :: "ping_options \<Rightarrow> event \<Rightarrow> bool" where
  "from_elsewhere options ev =
     (case ev of
        PROBE_REPLY pr \<Rightarrow> \<not> destination_reached (dst_addr options) (the_reply pr)
      | _ \<Rightarrow> False)"

text \<open>The round-trip time \<open>ping_handler\<close> measures for a reply.\<close>

definition sample :: "event \<Rightarrow> real" where
  "sample ev = (case ev of PROBE_REPLY pr \<Rightarrow> delay_get (the_probe pr) (the_reply pr) | _ \<Rightarrow> 0)"

text \<open>
  A reply or timeout during whose handling \<open>ping_handler\<close> can allocate and store
  a sample.
\<close>

definition storing :: "event \<times> answers \<Rightarrow> bool" where
  "storing x = (probe_event (fst x) \<and> rtt_malloc_ok (snd x) \<and> rtt_push_ok (snd x))"

text \<open>
  Modelled from the spec: the framework pairs every reply and every timeout it delivers
  with a probe that was handed to \<open>pt_send_probe\<close> and has had neither yet (the
  matching is the framework's, whose pairing the algorithm trusts). A sequence of events
  is \<open>admissible\<close> from a state with \<open>k\<close> such outstanding probes when each of its
  events arrives while a probe is outstanding: an event answers one probe, and the
  probes sent during its handling are outstanding afterwards. Nothing is asked of what
  follows a fault, where the run stops.
\<close>

fun admissible ::
  "env \<Rightarrow> nat \<Rightarrow> ping_options option \<Rightarrow> (event \<times> answers) list \<Rightarrow> heap \<Rightarrow> ping_data option
     \<Rightarrow> nat \<Rightarrow> bool" where
  "admissible e probe_skel opts [] h pdata k = True"
| "admissible e probe_skel opts ((ev, orc) # evs) h pdata k =
     (0 < k
      \<and> (case ping_step e orc h ev pdata probe_skel opts of
           Inl f \<Rightarrow> True
         | Inr (r, h1, pdata1, acts) \<Rightarrow>
             admissible e probe_skel opts evs h1 pdata1 (k - 1 + length (sent acts))))"

text \<open>
  An event during whose handling the dispatch of one more probe does not fail (after a
  reply or a timeout the handler dispatches at most one probe).
\<close>

definition sending :: "event \<times> answers \<Rightarrow> bool" where
  "sending x = (send_outcomes (snd x) 1 = SEND_OK)"

text \<open>The calls that close an invocation.\<close>

definition ALL_PROBES_SENT :: action where
  "ALL_PROBES_SENT = Raise_event (Ping_event PING_ALL_PROBES_SENT NO_DATA)"

definition WAIT :: action where
  "WAIT = Raise_event (Ping_event PING_WAIT NO_DATA)"

definition is_closing :: "action \<Rightarrow> bool" where
  "is_closing a = (a = ALL_PROBES_SENT \<or> a = WAIT \<or> a = Raise_terminated)"

text \<open>
  What an invocation must look like at its exit: when it has handed a probe to
  \<open>pt_send_probe\<close> it raises neither \<open>PING_ALL_PROBES_SENT\<close> nor \<open>PING_WAIT\<close> and does
  not signal termination; when it has sent no probe it raises \<open>PING_ALL_PROBES_SENT\<close>
  and then signals termination if no probe is in flight, and raises \<open>PING_WAIT\<close> alone
  otherwise.
\<close>

definition closing_ok :: "action list \<times> ping_data option \<Rightarrow> bool" where
  "closing_ok entry =
     (case entry of
        (acts, None) \<Rightarrow> False
      | (acts, Some d) \<Rightarrow>
          filter is_closing acts =
            (if sent acts \<noteq> [] then []
             else if num_probes_in_flight d = 0 then [ALL_PROBES_SENT, Raise_terminated]
             else [WAIT]))"

text \<open>
  The counters after the case \<open>PROBE_REPLY\<close> or \<open>PROBE_TIMEOUT\<close> of the \<open>switch\<close>, the
  outcome event that case raises, and the bound on the probes accounted for or in flight.
\<close>

definition accounted :: "event \<Rightarrow> ping_data \<Rightarrow> ping_data" where
  "accounted ev d =
     d\<lparr>num_replies := num_replies d + 1,
       num_losses := num_losses d + (if is_timeout ev then 1 else 0),
       num_probes_in_flight := num_probes_in_flight d - 1\<rparr>"

definition outcome :: "ping_options \<Rightarrow> event \<Rightarrow> ping_event" where
  "outcome options ev =
     (case ev of
        PROBE_REPLY pr \<Rightarrow>
          Ping_event (reply_event_type (dst_addr options) (the_reply pr)) (REPLY_DATA pr)
      | PROBE_TIMEOUT p \<Rightarrow> Ping_event PING_TIMEOUT (PROBE_DATA p)
      | _ \<Rightarrow> Ping_event PING_GEN_ERROR NO_DATA)"

definition within_count :: "ping_options \<Rightarrow> ping_data \<Rightarrow> bool" where
  "within_count options d =
     (unat (num_replies d) + unat (num_probes_in_flight d) \<le> unat (count options))"

text \<open>The invariant of section 8 of the specification, on the counters as machine words.\<close>

definition rtt_invariant :: "ping_data \<Rightarrow> bool" where
  "rtt_invariant d =
     (case rtt_results d of
        None \<Rightarrow> False
      | Some rtts \<Rightarrow> of_nat (length rtts) = num_replies d - num_losses d)"

subsection \<open>More example values\<close>

definition skeleton_with_delay :: "real \<Rightarrow> probe" where
  "skeleton_with_delay dl =
     \<lparr>layer_fields = Map.empty, delay = dl, sending_time = 0, recv_time = 0\<rparr>"

definition reply_event :: "u8 \<Rightarrow> u8 \<Rightarrow> address \<Rightarrow> event" where
  "reply_event t c a = PROBE_REPLY (Probe_reply (skeleton_with_delay (1 / 2)) (make_reply 4 t c a))"

definition timeout_event :: event where
  "timeout_event = PROBE_TIMEOUT (skeleton_with_delay (1 / 2))"

text \<open>
  The state of the example instance (two probes requested, skeleton delay 0.5 s) after
  its initial burst: the store of probes, and the data with given counters and samples.
\<close>

definition heap_after :: heap where
  "heap_after = [skeleton_with_delay (1 / 2), skeleton_with_delay (1 / 2), skeleton_with_delay 1]"

definition data_after :: "size_t \<Rightarrow> size_t \<Rightarrow> size_t \<Rightarrow> real list \<Rightarrow> ping_data" where
  "data_after r l f rtts =
     \<lparr>num_replies = r, num_losses = l, num_probes_in_flight = f, probes = [1, 2],
      rtt_results = Some rtts\<rparr>"

subsection \<open>Facts about the embedding\<close>

lemmas icmp_constants =
  ICMP_UNREACH_def ICMP_UNREACH_NET_def ICMP_UNREACH_HOST_def ICMP_UNREACH_PROTOCOL_def
  ICMP_UNREACH_PORT_def ICMP_REDIRECT_def ICMP_REDIRECT_NET_def ICMP_TIMXCEED_def
  ICMP_TIMXCEED_INTRANS_def ICMP_TIMXCEED_REASS_def ICMP_PARAMPROB_def
  ICMP6_DST_UNREACH_def ICMP6_DST_UNREACH_NOROUTE_def ICMP6_DST_UNREACH_ADDR_def
  ICMP6_DST_UNREACH_NOPORT_def ICMP6_TIME_EXCEEDED_def ICMP6_TIME_EXCEED_TRANSIT_def
  ICMP6_TIME_EXCEED_REASSEMBLY_def ICMP6_PARAM_PROB_def ICMP6_PARAMPROB_HEADER_def
  ICMP6_PARAMPROB_NEXTHEADER_def ICMP6_PARAMPROB_OPTION_def ND_REDIRECT_def

lemma raised_append: "raised (xs @ ys) = raised xs @ raised ys"
  by (induction xs rule: raised.induct) auto

lemma send_ping_probe_raised:
  "send_ping_probe e r h d skel i = (ok, h1, d1, acts) \<Longrightarrow> raised acts = []"
  by (auto simp: send_ping_probe_def Let_def split: option.splits if_splits prod.splits)

lemma send_ping_probes_loop_raised:
  "send_ping_probes_loop e orc skel n i h d = (ok, h1, d1, acts) \<Longrightarrow> raised acts = []"
proof (induction e orc skel n i h d arbitrary: ok h1 d1 acts rule: send_ping_probes_loop.induct)
  case (1 e orc probe_skel num_probes i h ping_data)
  show ?case
  proof (cases "i < num_probes")
    case False
    with "1.prems" show ?thesis by (simp add: send_ping_probes_loop.simps)
  next
    case True
    obtain ok1 ha da a1 where s1:
      "send_ping_probe e (send_outcomes orc (i + 1)) h ping_data probe_skel (i + 1) = (ok1, ha, da, a1)"
      by (cases "send_ping_probe e (send_outcomes orc (i + 1)) h ping_data probe_skel (i + 1)") auto
    have r1: "raised a1 = []" using s1 by (rule send_ping_probe_raised)
    show ?thesis
    proof (cases ok1)
      case False
      with "1.prems" True s1 r1 show ?thesis by (simp add: send_ping_probes_loop.simps[of e orc probe_skel num_probes i])
    next
      case ok: True
      obtain ok2 hb db a2 where s2:
        "send_ping_probes_loop e orc probe_skel num_probes (i + 1) ha da = (ok2, hb, db, a2)"
        by (cases "send_ping_probes_loop e orc probe_skel num_probes (i + 1) ha da") auto
      have "raised a2 = []" using "1.IH"[OF True s1[symmetric] refl refl _ s2] ok by simp
      with "1.prems" True s1 s2 r1 ok show ?thesis by (auto simp: raised_append send_ping_probes_loop.simps[of e orc probe_skel num_probes i])
    qed
  qed
qed

lemma handler_dispatch_raised:
  "handler_dispatch e orc h (Some d) skel (Some options) n = Inr (h1, d1, acts)
   \<Longrightarrow> raised acts = [] \<or> raised acts = [PING_ALL_PROBES_SENT] \<or> raised acts = [PING_WAIT]"
  by (auto simp: handler_dispatch_def send_ping_probes_def split: if_splits prod.splits
           dest: send_ping_probes_loop_raised)

lemma handler_dispatch_returns:
  "\<exists>h1 d1 acts. handler_dispatch e orc h (Some d) skel (Some options) n = Inr (h1, d1, acts)"
  by (auto simp: handler_dispatch_def split: prod.splits)

lemma handler_reply:
  "\<exists>h1 d1 acts. ping_loop_handler e orc h (PROBE_REPLY pr) (Some d) skel (Some options)
       = Inr (0, h1, Some d1, acts)
     \<and> (\<exists>rest. raised acts = reply_event_type (dst_addr options) (the_reply pr) # rest
          \<and> (rest = [] \<or> rest = [PING_ALL_PROBES_SENT] \<or> rest = [PING_WAIT]))"
proof -
  let ?d = "d\<lparr>num_replies := num_replies d + 1, num_probes_in_flight := num_probes_in_flight d - 1\<rparr>"
  obtain h1 d1 acts1 where disp:
    "handler_dispatch e orc h (Some ?d) skel (Some options) (more_to_send options ?d) = Inr (h1, d1, acts1)"
    using handler_dispatch_returns by blast
  from handler_dispatch_raised[OF disp] disp show ?thesis
    by (auto simp: ping_loop_handler_def handler_switch_def Let_def raised_append)
qed

lemma deviation_loop_fault:
  "deviation_loop xs m i s = Inl f \<Longrightarrow> f = INT_CONVERSION_OVERFLOW"
proof (induction xs m i s rule: deviation_loop.induct)
  case (1 array mean i sum_acc)
  show ?case
  proof (cases "i < dynarray_get_size array")
    case False
    with "1.prems" show ?thesis by (simp add: deviation_loop.simps)
  next
    case True
    show ?thesis
    proof (cases "double_to_int (array ! i - mean)")
      case (Inl g)
      with "1.prems" True show ?thesis
        by (simp add: deviation_loop.simps[of array mean i] double_to_int_def Let_def
              split: if_splits)
    next
      case (Inr j)
      show ?thesis
      proof (cases "abs_c j")
        case (Inl g)
        with "1.prems" True Inr show ?thesis
          by (simp add: deviation_loop.simps[of array mean i] abs_c_def split: if_splits)
      next
        case (Inr a)
        with "1.prems" True \<open>double_to_int (array ! i - mean) = Inr j\<close>
        have "deviation_loop array mean (i + 1) (sum_acc + real_of_int a) = Inl f"
          by (simp add: deviation_loop.simps[of array mean i])
        with "1.IH"[OF True \<open>double_to_int (array ! i - mean) = Inr j\<close> Inr] show ?thesis .
      qed
    qed
  qed
qed

lemma send_ping_probe_cases:
  assumes "skel < length h"
  shows "send_ping_probe e r h d skel i =
           (if r = DUP_FAILS then (False, h, d, [Stderr ''Error in send_ping_probe''])
            else if r = PUSH_FAILS
            then (False, h @ [clone_of e (h ! skel) i], d, [Stderr ''Error in send_ping_probe''])
            else (r = SEND_OK, h @ [clone_of e (h ! skel) i],
                  d\<lparr>probes := probes d @ [length h]\<rparr>, [Send_probe (length h)]))"
  using assms
  by (simp add: send_ping_probe_def probe_dup_def probe_set_delay_def staggered_def
        clone_of_def probe_get_delay_def nth_append Let_def)

lemma all_sent_step:
  "i < n \<Longrightarrow> all_sent orc i n = (send_outcomes orc (i + 1) = SEND_OK \<and> all_sent orc (i + 1) n)"
  by (cases "n = Suc i") (auto simp: all_sent_def upt_conv_Cons)

lemma send_ping_probes_loop_heap:
  assumes "skel < length h"
    and "send_ping_probes_loop e orc skel n i h d = (ok, h1, d1, acts)"
  shows "\<exists>m. i + m \<le> max n i
           \<and> h1 = h @ map (clone_of e (h ! skel)) [i + 1 ..< i + 1 + m]
           \<and> (all_sent orc i n \<longrightarrow>
                ok \<and> m = n - i
                \<and> probes d1 = probes d @ [length h ..< length h + m]
                \<and> acts = map Send_probe [length h ..< length h + m])"
  using assms
proof (induction e orc skel n i h d arbitrary: ok h1 d1 acts rule: send_ping_probes_loop.induct)
  case (1 e orc skel n i h d)
  note skel = "1.prems"(1) and run = "1.prems"(2)
  show ?case
  proof (cases "i < n")
    case False
    with run have "h1 = h" "d1 = d" "acts = []" "ok"
      by (simp_all add: send_ping_probes_loop.simps[of e orc skel n i])
    with False show ?thesis by (intro exI[of _ 0]) (simp add: all_sent_def)
  next
    case True
    let ?r = "send_outcomes orc (i + 1)"
    let ?ha = "h @ [clone_of e (h ! skel) (i + 1)]"
    note one = send_ping_probe_cases[OF skel, where e = e and r = ?r and d = d and i = "i + 1"]
    show ?thesis
    proof (cases "?r = SEND_OK")
      case False
      then have nall: "\<not> all_sent orc i n" using True by (simp add: all_sent_step)
      show ?thesis
      proof (cases "?r = DUP_FAILS")
        case dup: True
        with run True one have "h1 = h"
          by (simp add: send_ping_probes_loop.simps[of e orc skel n i])
        with nall show ?thesis by (intro exI[of _ 0]) simp
      next
        case nodup: False
        with run True one False have "h1 = ?ha"
          by (simp add: send_ping_probes_loop.simps[of e orc skel n i] split: if_splits)
        with nall True show ?thesis by (intro exI[of _ 1]) simp
      qed
    next
      case ok1: True
      let ?da = "d\<lparr>probes := probes d @ [length h]\<rparr>"
      have s1: "send_ping_probe e ?r h d skel (i + 1) = (True, ?ha, ?da, [Send_probe (length h)])"
        using one ok1 by simp
      obtain ok2 hb db a2 where s2:
        "send_ping_probes_loop e orc skel n (i + 1) ?ha ?da = (ok2, hb, db, a2)"
        by (cases "send_ping_probes_loop e orc skel n (i + 1) ?ha ?da") auto
      have res: "ok = ok2" "h1 = hb" "d1 = db" "acts = Send_probe (length h) # a2"
        using run True s1 s2 by (simp_all add: send_ping_probes_loop.simps[of e orc skel n i])
      have skel': "skel < length ?ha" using skel by simp
      have same: "?ha ! skel = h ! skel" using skel by (simp add: nth_append)
      from "1.IH"[OF True s1[symmetric] refl refl _ skel' s2]
      obtain m where m: "i + 1 + m \<le> max n (i + 1)"
        "hb = ?ha @ map (clone_of e (h ! skel)) [i + 1 + 1 ..< i + 1 + 1 + m]"
        "all_sent orc (i + 1) n \<longrightarrow>
           ok2 \<and> m = n - (i + 1)
           \<and> probes db = probes ?da @ [length ?ha ..< length ?ha + m]
           \<and> acts = Send_probe (length h) # map Send_probe [length ?ha ..< length ?ha + m]"
        using same res by auto
      have up: "[i + 1 ..< i + 1 + (m + 1)] = (i + 1) # [i + 1 + 1 ..< i + 1 + 1 + m]"
        by (simp add: upt_conv_Cons)
      have up2: "[length h ..< length h + (m + 1)] = length h # [length h + 1 ..< length h + 1 + m]"
        by (simp add: upt_conv_Cons)
      show ?thesis
      proof (intro exI[of _ "m + 1"] conjI impI)
        show "i + (m + 1) \<le> max n i" using m(1) True by simp
        show "h1 = h @ map (clone_of e (h ! skel)) [i + 1 ..< i + 1 + (m + 1)]"
          unfolding up using m(2) res by simp
      next
        assume a: "all_sent orc i n"
        then have a': "all_sent orc (i + 1) n" using True by (simp add: all_sent_step)
        with m(3) show "ok" using res by simp
        from a' m(3) show "m + 1 = n - i" using True by simp
        from a' m(3) show "probes d1 = probes d @ [length h ..< length h + (m + 1)]"
          unfolding up2 using res by simp
        from a' m(3) show "acts = map Send_probe [length h ..< length h + (m + 1)]"
          unfolding up2 by simp
      qed
    qed
  qed
qed

lemma unat_ucast_32_64: "unat (ucast (w :: 32 word) :: 64 word) = unat w"
  by transfer simp

lemma ucast_32_64_eq_0: "(ucast (w :: 32 word) :: 64 word) = 0 \<longleftrightarrow> w = 0"
  using unat_ucast_32_64[of w] by (metis unsigned_eq_0_iff)

lemma unat_MIN_uint: "unat (MIN_uint a b) = min (unat a) (unat b)"
  by (simp add: MIN_uint_def word_less_nat_alt min_def)

lemma unat_word_of_int_32:
  "0 \<le> x \<Longrightarrow> x \<le> INT_MAX \<Longrightarrow> unat (word_of_int x :: 32 word) = nat x"
  by (simp add: unsigned_of_int take_bit_int_eq_self INT_MAX_def)

lemma sent_map_Send_probe: "sent (map Send_probe xs) = xs"
  by (induction xs) auto

lemma sent_append: "sent (xs @ ys) = sent xs @ sent ys"
  by (induction xs rule: sent.induct) auto

lemma send_ping_probe_counters:
  "send_ping_probe e r h d skel i = (ok, h1, d1, acts)
   \<Longrightarrow> num_replies d1 = num_replies d \<and> num_losses d1 = num_losses d
       \<and> num_probes_in_flight d1 = num_probes_in_flight d \<and> rtt_results d1 = rtt_results d"
  by (auto simp: send_ping_probe_def Let_def split: option.splits if_splits)

lemma send_ping_probes_loop_counters:
  "send_ping_probes_loop e orc skel n i h d = (ok, h1, d1, acts)
   \<Longrightarrow> num_replies d1 = num_replies d \<and> num_losses d1 = num_losses d
       \<and> num_probes_in_flight d1 = num_probes_in_flight d \<and> rtt_results d1 = rtt_results d"
proof (induction e orc skel n i h d arbitrary: ok h1 d1 acts rule: send_ping_probes_loop.induct)
  case (1 e orc skel n i h d)
  show ?case
  proof (cases "i < n")
    case False
    with "1.prems" show ?thesis by (simp add: send_ping_probes_loop.simps[of e orc skel n i])
  next
    case True
    obtain ok1 ha da a1 where s1:
      "send_ping_probe e (send_outcomes orc (i + 1)) h d skel (i + 1) = (ok1, ha, da, a1)"
      by (cases "send_ping_probe e (send_outcomes orc (i + 1)) h d skel (i + 1)") auto
    note da = send_ping_probe_counters[OF s1]
    show ?thesis
    proof (cases ok1)
      case False
      with "1.prems" True s1 have "d1 = da"
        by (simp add: send_ping_probes_loop.simps[of e orc skel n i])
      with da show ?thesis by simp
    next
      case ok: True
      obtain ok2 hb db a2 where s2:
        "send_ping_probes_loop e orc skel n (i + 1) ha da = (ok2, hb, db, a2)"
        by (cases "send_ping_probes_loop e orc skel n (i + 1) ha da") auto
      have "d1 = db" using "1.prems" True s1 s2 ok
        by (simp add: send_ping_probes_loop.simps[of e orc skel n i])
      with "1.IH"[OF True s1[symmetric] refl refl _ s2] ok da show ?thesis by simp
    qed
  qed
qed

lemma deliver_append:
  "deliver orc options (xs @ ys) d =
     (case deliver orc options xs d of Inl f \<Rightarrow> Inl f | Inr d1 \<Rightarrow> deliver orc options ys d1)"
  by (induction orc options xs d rule: deliver.induct) (auto split: sum.splits)

lemma deliver_no_event: "raised acts = [] \<Longrightarrow> deliver orc options acts d = Inr d"
  by (induction acts rule: raised.induct) auto

lemma unat_succ: "unat (x :: size_t) < 2 ^ 32 \<Longrightarrow> unat (x + 1) = unat x + 1"
  by (simp add: unat_word_ariths)

lemma unat_pred: "(x :: size_t) \<noteq> 0 \<Longrightarrow> unat (x - 1) = unat x - 1"
  by (simp add: unat_minus_one)

lemma unat_sum: "unat (x :: size_t) + unat y < 2 ^ 33 \<Longrightarrow> unat (x + y) = unat x + unat y"
  by (simp add: unat_word_ariths)

lemma unat_uint_bound: "unat (c :: uint) < 2 ^ 32"
  using unsigned_less[of c, where 'a = nat] by simp

lemma switch_probe_event:
  "probe_event ev \<Longrightarrow>
   handler_switch e orc ev (Some d) (Some options)
     = Inr (CONTINUE (Some (accounted ev d)) (Some (accounted ev d))
              (more_to_send options (accounted ev d)) [Raise_event (outcome options ev)])"
  by (cases ev)
     (simp_all add: probe_event_def handler_switch_def accounted_def outcome_def
        is_timeout_def Let_def)

lemma more_to_send_cases: "more_to_send options d = 0 \<or> more_to_send options d = 1"
  by (simp add: more_to_send_def)

lemma dispatch_returns:
  "\<exists>h1 d2 tail. handler_dispatch e orc h (Some d) skel (Some options) n = Inr (h1, d2, tail)"
  by (auto simp: handler_dispatch_def split: prod.splits)

lemmas double_defs =
  double_div_def round_double_def round_half_even_def exponent_def pow2_def ilog2.simps Let_def

lemma pow2_pos: "0 < pow2 k"
  by (simp add: pow2_def)

lemma round_half_even_nonneg: "0 \<le> y \<Longrightarrow> 0 \<le> round_half_even y"
  by (auto simp: round_half_even_def Let_def)

lemma round_double_nonneg: "0 \<le> round_double x" if "0 \<le> x"
proof (cases "x = 0")
  case True
  then show ?thesis by (simp add: round_double_def)
next
  case False
  with that have "0 < x" by simp
  let ?u = "pow2 (exponent x - 52)"
  have u: "0 < ?u" by (rule pow2_pos)
  then have "0 \<le> x / ?u" using \<open>0 < x\<close> by simp
  then have "0 \<le> round_half_even (x / ?u)" by (rule round_half_even_nonneg)
  then have "0 \<le> ?u * of_int (round_half_even (x / ?u))" using u by simp
  then show ?thesis using \<open>0 < x\<close> by (simp add: round_double_def)
qed

lemma ilog2_bounds: "0 < n \<Longrightarrow> 2 ^ ilog2 n \<le> n \<and> n < 2 ^ (ilog2 n + 1)"
proof (induction n rule: ilog2.induct)
  case (1 n)
  show ?case
  proof (cases "n < 2")
    case True
    then have "ilog2 n = 0" by (simp add: ilog2.simps[of n])
    with True "1.prems" show ?thesis by simp
  next
    case False
    then have pos: "0 < n div 2" by simp
    from "1.IH"[OF False pos]
    have ih: "2 ^ ilog2 (n div 2) \<le> n div 2" "n div 2 < 2 ^ (ilog2 (n div 2) + 1)"
      by simp_all
    have e: "ilog2 n = ilog2 (n div 2) + 1" using False by (simp add: ilog2.simps[of n])
    have "2 * 2 ^ ilog2 (n div 2) \<le> n" using ih(1) by linarith
    moreover have "n < 2 * 2 ^ (ilog2 (n div 2) + 1)" using ih(2) by linarith
    ultimately show ?thesis unfolding e by simp
  qed
qed

lemma pow2_nat: "pow2 (int k) = 2 ^ k"
  by (simp add: pow2_def)

lemma pow2_neg: "pow2 (- int k) = 1 / 2 ^ k"
  by (cases "k = 0") (simp_all add: pow2_def)

lemma pow2_Suc: "pow2 (k + 1) = 2 * pow2 k"
proof (cases "0 \<le> k")
  case True
  then have "nat (k + 1) = Suc (nat k)" by simp
  with True show ?thesis by (simp add: pow2_def)
next
  case False
  then have "nat (- k) = Suc (nat (- (k + 1)))" by simp
  with False show ?thesis by (simp add: pow2_def)
qed

text \<open>The exponent of a positive number locates it between two powers of two.\<close>

lemma exponent_bounds:
  assumes "0 < x"
  shows "pow2 (exponent x) \<le> x \<and> x < pow2 (exponent x + 1)"
proof (cases "1 \<le> x")
  case True
  let ?n = "nat \<lfloor>x\<rfloor>"
  from True have n: "0 < ?n" by simp
  from True have lo: "real ?n \<le> x" and hi: "x < real ?n + 1" by linarith+
  from ilog2_bounds[OF n] have a: "2 ^ ilog2 ?n \<le> ?n" and b: "?n + 1 \<le> 2 ^ (ilog2 ?n + 1)"
    by simp_all
  from a have "real (2 ^ ilog2 ?n) \<le> real ?n" by (simp only: of_nat_le_iff)
  then have "(2 :: real) ^ ilog2 ?n \<le> real ?n" by simp
  moreover from b have "real (?n + 1) \<le> real (2 ^ (ilog2 ?n + 1))"
    by (simp only: of_nat_le_iff)
  then have "real ?n + 1 \<le> 2 ^ (ilog2 ?n + 1)" by simp
  ultimately have "2 ^ ilog2 ?n \<le> x" "x < 2 ^ (ilog2 ?n + 1)" using lo hi by linarith+
  moreover have "exponent x = int (ilog2 ?n)" using True by (simp add: exponent_def)
  ultimately show ?thesis by (simp add: pow2_Suc pow2_nat)
next
  case False
  let ?m = "nat (\<lceil>1 / x\<rceil> - 1)"
  from False have x1: "x < 1" by simp
  have "1 / 1 < 1 / x" using assms x1 by (intro divide_strict_left_mono) simp_all
  then have inv: "1 < 1 / x" by simp
  then have c2: "2 \<le> \<lceil>1 / x\<rceil>" by linarith
  then have m: "0 < ?m" by linarith
  from c2 have "0 \<le> \<lceil>1 / x\<rceil> - 1" by linarith
  then have "real ?m = of_int (\<lceil>1 / x\<rceil> - 1)" by (simp only: of_nat_nat)
  then have rm: "real ?m = of_int \<lceil>1 / x\<rceil> - 1" by simp
  have lo: "real ?m < 1 / x" unfolding rm by linarith
  have hi: "1 / x \<le> real ?m + 1" unfolding rm by linarith
  from ilog2_bounds[OF m] have a: "2 ^ ilog2 ?m \<le> ?m" and b: "?m + 1 \<le> 2 ^ (ilog2 ?m + 1)"
    by simp_all
  from a have "real (2 ^ ilog2 ?m) \<le> real ?m" by (simp only: of_nat_le_iff)
  then have "(2 :: real) ^ ilog2 ?m \<le> real ?m" by simp
  with lo have l1: "2 ^ ilog2 ?m < 1 / x" by linarith
  from b have "real (?m + 1) \<le> real (2 ^ (ilog2 ?m + 1))"
    by (simp only: of_nat_le_iff)
  then have "real ?m + 1 \<le> 2 ^ (ilog2 ?m + 1)" by simp
  with hi have h1: "1 / x \<le> 2 ^ (ilog2 ?m + 1)" by linarith
  have up: "x < 1 / 2 ^ ilog2 ?m"
    using l1 assms by (simp add: field_simps)
  have dn: "1 / 2 ^ (ilog2 ?m + 1) \<le> x"
    using h1 assms by (simp add: field_simps)
  have e: "exponent x = - int (ilog2 ?m + 1)" using False by (simp add: exponent_def)
  have e1: "exponent x + 1 = - int (ilog2 ?m)" using e by simp
  show ?thesis unfolding e1 unfolding e pow2_neg using up dn by simp
qed

lemma round_half_even_error: "\<bar>of_int (round_half_even y) - y\<bar> \<le> 1 / 2"
  unfolding round_half_even_def Let_def by (simp split: if_splits)

text \<open>
  The significand of the rounded quotient is an integer of at most 53 bits, and the
  rounded quotient differs from the exact one by at most half a unit of the last place.
\<close>

lemma round_double_error:
  assumes "0 < x"
  shows "\<bar>round_double x - x\<bar> \<le> pow2 (exponent x - 52) / 2"
proof -
  let ?u = "pow2 (exponent x - 52)"
  have u: "0 < ?u" by (rule pow2_pos)
  have eq: "?u * of_int (round_half_even (x / ?u)) - x
              = ?u * (of_int (round_half_even (x / ?u)) - x / ?u)"
    using u by (simp add: right_diff_distrib)
  have "\<bar>?u * of_int (round_half_even (x / ?u)) - x\<bar>
          = ?u * \<bar>of_int (round_half_even (x / ?u)) - x / ?u\<bar>"
    unfolding eq abs_mult using u by simp
  also have "\<dots> \<le> ?u * (1 / 2)"
    using u round_half_even_error[of "x / ?u"] by (intro mult_left_mono) simp_all
  finally show ?thesis using assms by (simp add: round_double_def)
qed

lemma unat_ucast_64_32: "unat (ucast (x :: 64 word) :: 32 word) = unat x mod 2 ^ 32"
  by transfer (simp add: take_bit_eq_mod nat_mod_distrib)

lemma sint_small: "sint y = int (unat y)" if "unat (y :: 32 word) < 2147483648"
proof -
  from that have "uint y < 2147483648" unfolding uint_nat by linarith
  then have lt: "uint y < 2 ^ 31" by simp
  have "- 2147483648 \<le> uint y" using uint_ge_0[of y] by linarith
  then have ge: "- (2 ^ 31) \<le> uint y" by simp
  have "signed_take_bit 31 (uint y) = uint y"
    by (rule signed_take_bit_int_eq_self[OF ge lt])
  then have "sint y = uint y" by (simp add: sint_uint)
  then show ?thesis unfolding uint_nat .
qed

lemma diff_small:
  fixes c :: "32 word" and r :: "64 word"
  assumes "unat r \<le> unat c" and "unat c < 2147483648"
  shows "sint (ucast (ucast c - r :: 64 word) :: 32 word) = int (unat c - unat r)"
proof -
  have c64: "unat (ucast c :: 64 word) = unat c" by (rule unat_ucast_32_64)
  have "r \<le> ucast c" using assms(1) by (simp add: word_le_nat_alt c64)
  then have d: "unat (ucast c - r) = unat c - unat r" by (simp add: unat_sub c64)
  have "unat (ucast (ucast c - r :: 64 word) :: 32 word) = unat c - unat r"
    using assms(2) by (simp add: unat_ucast_64_32 d)
  moreover have "unat c - unat r < 2147483648" using assms(2) by linarith
  ultimately show ?thesis by (simp add: sint_small)
qed

lemma more_to_send_zero:
  assumes "unat (num_replies d) \<le> unat (count options)"
    and "unat (count options) \<le> nat INT_MAX"
    and "more_to_send options d = 0"
  shows "unat (num_replies d) = unat (count options)"
proof -
  from assms(2) have c: "unat (count options) < 2147483648" by (simp add: INT_MAX_def)
  from assms(3) have "\<not> 0 < sint (ucast (ucast (count options) - num_replies d :: size_t) :: 32 word)"
    by (simp add: more_to_send_def split: if_splits)
  then have "\<not> 0 < int (unat (count options) - unat (num_replies d))"
    by (simp add: diff_small[OF assms(1) c])
  then have "unat (count options) - unat (num_replies d) = 0" by linarith
  with assms(1) show ?thesis by linarith
qed

lemma all_sent_mono: "n \<le> m \<Longrightarrow> all_sent orc i m \<Longrightarrow> all_sent orc i n"
  by (auto simp: all_sent_def list_all_iff)

lemma all_sent_one: "sending (ev, orc) \<Longrightarrow> all_sent orc 0 1"
  by (simp add: sending_def all_sent_def)

lemma send_ping_probe_closing:
  "send_ping_probe e r h d skel i = (ok, h1, d1, acts) \<Longrightarrow> filter is_closing acts = []"
  by (auto simp: send_ping_probe_def Let_def is_closing_def ALL_PROBES_SENT_def WAIT_def
        split: option.splits if_splits)

lemma send_ping_probes_loop_closing:
  "send_ping_probes_loop e orc skel n i h d = (ok, h1, d1, acts)
   \<Longrightarrow> filter is_closing acts = []"
proof (induction e orc skel n i h d arbitrary: ok h1 d1 acts rule: send_ping_probes_loop.induct)
  case (1 e orc skel n i h d)
  show ?case
  proof (cases "i < n")
    case False
    with "1.prems" show ?thesis by (simp add: send_ping_probes_loop.simps[of e orc skel n i])
  next
    case True
    obtain ok1 ha da a1 where s1:
      "send_ping_probe e (send_outcomes orc (i + 1)) h d skel (i + 1) = (ok1, ha, da, a1)"
      by (cases "send_ping_probe e (send_outcomes orc (i + 1)) h d skel (i + 1)") auto
    note c1 = send_ping_probe_closing[OF s1]
    show ?thesis
    proof (cases ok1)
      case False
      with "1.prems" True s1 have "acts = a1"
        by (simp add: send_ping_probes_loop.simps[of e orc skel n i])
      with c1 show ?thesis by simp
    next
      case ok: True
      obtain ok2 hb db a2 where s2:
        "send_ping_probes_loop e orc skel n (i + 1) ha da = (ok2, hb, db, a2)"
        by (cases "send_ping_probes_loop e orc skel n (i + 1) ha da") auto
      have "acts = a1 @ a2" using "1.prems" True s1 s2 ok
        by (simp add: send_ping_probes_loop.simps[of e orc skel n i])
      with "1.IH"[OF True s1[symmetric] refl refl _ s2] ok c1 show ?thesis by simp
    qed
  qed
qed

lemma dispatch_cases:
  assumes "handler_dispatch e orc h (Some d) skel (Some options) n = Inr (h1, d2, tail)"
  shows "if 0 < n \<and> num_replies d + num_probes_in_flight d \<noteq> ucast (count options)
         then raised tail = [] \<and> filter is_closing tail = []
              \<and> num_replies d2 = num_replies d \<and> num_losses d2 = num_losses d
              \<and> rtt_results d2 = rtt_results d
              \<and> num_probes_in_flight d2 = num_probes_in_flight d + n
         else h1 = h \<and> d2 = d
              \<and> tail = (if num_probes_in_flight d = 0 then [ALL_PROBES_SENT, Raise_terminated]
                        else [WAIT])"
proof (cases "0 < n \<and> num_replies d + num_probes_in_flight d \<noteq> ucast (count options)")
  case False
  with assms show ?thesis
    by (auto simp: handler_dispatch_def ALL_PROBES_SENT_def WAIT_def split: if_splits)
next
  case True
  obtain ok ha da acts where sp: "send_ping_probes e orc h d skel n = (ok, ha, da, acts)"
    by (cases "send_ping_probes e orc h d skel n") auto
  with assms True have res: "h1 = ha" "tail = acts"
    "d2 = da\<lparr>num_probes_in_flight := num_probes_in_flight da + n\<rparr>"
    by (simp_all add: handler_dispatch_def)
  with send_ping_probes_loop_closing[OF sp[unfolded send_ping_probes_def]]
       send_ping_probes_loop_counters[OF sp[unfolded send_ping_probes_def]]
       send_ping_probes_loop_raised[OF sp[unfolded send_ping_probes_def]]
       True
  show ?thesis by simp
qed

text \<open>What a dispatch sends when the skeleton is a probe of the store and no step fails.\<close>

lemma dispatch_sends:
  assumes disp: "handler_dispatch e orc h (Some d) skel (Some options) n = Inr (h1, d2, tail)"
    and skel: "skel < length h"
    and all: "all_sent orc 0 (unat n)"
  shows "skel < length h1
         \<and> length (sent tail)
             = (if 0 < n \<and> num_replies d + num_probes_in_flight d \<noteq> ucast (count options)
                then unat n else 0)"
proof (cases "0 < n \<and> num_replies d + num_probes_in_flight d \<noteq> ucast (count options)")
  case False
  with dispatch_cases[OF disp] skel show ?thesis
    by (auto simp: ALL_PROBES_SENT_def WAIT_def split: if_splits)
next
  case True
  obtain ok ha da acts where sp: "send_ping_probes e orc h d skel n = (ok, ha, da, acts)"
    by (cases "send_ping_probes e orc h d skel n") auto
  with disp True have res: "h1 = ha" "tail = acts"
    by (simp_all add: handler_dispatch_def)
  from send_ping_probes_loop_heap[OF skel sp[unfolded send_ping_probes_def]]
  obtain m where m: "ha = h @ map (clone_of e (h ! skel)) [0 + 1 ..< 0 + 1 + m]"
    "all_sent orc 0 (unat n) \<longrightarrow>
       ok \<and> m = unat n - 0
       \<and> probes da = probes d @ [length h ..< length h + m]
       \<and> acts = map Send_probe [length h ..< length h + m]"
    by blast
  from m(2) all have "acts = map Send_probe [length h ..< length h + m]" "m = unat n"
    by simp_all
  then have "length (sent acts) = unat n" by (simp add: sent_map_Send_probe)
  with m(1) res skel True show ?thesis by simp
qed

lemma ping_handler_counters:
  "ping_handler orc pe options d = Inr d1
   \<Longrightarrow> num_replies d1 = num_replies d \<and> num_losses d1 = num_losses d
       \<and> num_probes_in_flight d1 = num_probes_in_flight d \<and> probes d1 = probes d"
  by (auto simp: ping_handler_def split: ping_event.splits ping_event_type.splits
        event_data.splits option.splits if_splits)

lemma ping_handler_closing:
  "ping_handler orc (Ping_event PING_ALL_PROBES_SENT x) options d = Inr d"
  "ping_handler orc (Ping_event PING_WAIT x) options d = Inr d"
  by (simp_all add: ping_handler_def)

lemma handler_probe_event:
  assumes pe: "probe_event ev"
  shows "\<exists>h1 d2 tail.
           handler_dispatch e orc h (Some (accounted ev d)) skel (Some options)
               (more_to_send options (accounted ev d)) = Inr (h1, d2, tail)
           \<and> ping_loop_handler e orc h ev (Some d) skel (Some options)
               = Inr (0, h1, Some d2,
                      [Raise_event (outcome options ev)] @ [Algorithm_throw ev] @ tail
                        @ [Event_free])"
proof -
  obtain h1 d2 tail where disp:
    "handler_dispatch e orc h (Some (accounted ev d)) skel (Some options)
       (more_to_send options (accounted ev d)) = Inr (h1, d2, tail)"
    using dispatch_returns by blast
  then show ?thesis
    by (simp add: ping_loop_handler_def switch_probe_event[OF pe])
qed

lemma deliver_tail:
  assumes "handler_dispatch e orc h (Some d) skel (Some options) n = Inr (h1, d2, tail)"
  shows "deliver orc options (Algorithm_throw ev # tail @ [Event_free]) d3 = Inr d3"
proof (cases "0 < n \<and> num_replies d + num_probes_in_flight d \<noteq> ucast (count options)")
  case True
  with dispatch_cases[OF assms] have "raised tail = []" by simp
  then have "raised (tail @ [Event_free]) = []" by (simp add: raised_append)
  then show ?thesis by (simp add: deliver_no_event)
next
  case False
  with dispatch_cases[OF assms]
  have "tail = [ALL_PROBES_SENT, Raise_terminated] \<or> tail = [WAIT]" by (simp split: if_splits)
  then show ?thesis
    by (auto simp: ALL_PROBES_SENT_def WAIT_def ping_handler_closing)
qed

lemma outcome_not_closing: "probe_event ev \<Longrightarrow> \<not> is_closing (Raise_event (outcome options ev))"
  by (cases ev)
     (simp_all add: probe_event_def outcome_def is_closing_def ALL_PROBES_SENT_def WAIT_def)

lemma count_closing:
  "is_closing a \<Longrightarrow> count_list (filter is_closing xs) a = count_list xs a"
  by (induction xs) auto

lemma ping_handler_outcome:
  assumes "probe_event ev" and "rtt_malloc_ok orc" and "rtt_results d = Some rtts"
  shows "\<exists>d1 rtts1. ping_handler orc (outcome options ev) options d = Inr d1
           \<and> rtt_results d1 = Some rtts1"
  using assms
  by (cases ev)
     (auto simp: probe_event_def outcome_def ping_handler_def split: ping_event_type.splits)

text \<open>The invocation on \<open>ALGORITHM_INIT\<close> that returns 0.\<close>

lemma init_shape:
  assumes "ping_step e orc h ALGORITHM_INIT pd skel (Some options) = Inr (0, h1, pd1, acts)"
  shows "\<exists>n d2 tail.
           unat n \<le> unat (count options)
           \<and> handler_dispatch e orc h (Some (data0 0 0)) skel (Some options) n
               = Inr (h1, d2, tail)
           \<and> pd1 = Some d2
           \<and> acts = Algorithm_throw ALGORITHM_INIT # tail @ [Event_free]"
proof -
  have "\<exists>n. handler_switch e orc ALGORITHM_INIT pd (Some options)
              = Inr (CONTINUE (Some (data0 0 0)) (Some (data0 0 0)) n [])
            \<and> unat n \<le> unat (count options)"
  proof (cases "handler_switch e orc ALGORITHM_INIT pd (Some options)")
    case (Inl f)
    with assms show ?thesis by (simp add: ping_step_def ping_loop_handler_def)
  next
    case (Inr sw)
    show ?thesis
    proof (cases sw)
      case (FAILURE a)
      with Inr assms show ?thesis
        by (auto simp: ping_step_def ping_loop_handler_def EINVAL_def
              split: option.splits sum.splits)
    next
      case (CONTINUE data pdata1 n a)
      with Inr show ?thesis
        by (auto simp: handler_switch_def ping_data_create_def data0_def unat_ucast_32_64
              unat_MIN_uint split: if_splits sum.splits)
    qed
  qed
  then obtain n where
    sw: "handler_switch e orc ALGORITHM_INIT pd (Some options)
           = Inr (CONTINUE (Some (data0 0 0)) (Some (data0 0 0)) n [])" and
    nle: "unat n \<le> unat (count options)"
    by blast
  obtain ha d2 tail where
    disp: "handler_dispatch e orc h (Some (data0 0 0)) skel (Some options) n
             = Inr (ha, d2, tail)"
    using dispatch_returns by blast
  with sw have hd: "ping_loop_handler e orc h ALGORITHM_INIT pd skel (Some options)
      = Inr (0, ha, Some d2, Algorithm_throw ALGORITHM_INIT # tail @ [Event_free])"
    by (simp add: ping_loop_handler_def)
  from assms hd deliver_tail[OF disp, of ALGORITHM_INIT d2]
  have "h1 = ha" "pd1 = Some d2" "acts = Algorithm_throw ALGORITHM_INIT # tail @ [Event_free]"
    by (simp_all add: ping_step_def)
  with nle disp show ?thesis by blast
qed

lemma step_init_data:
  assumes "ping_step e orc h ALGORITHM_INIT pd skel (Some options) = Inr (0, h1, pd1, acts)"
  shows "\<exists>d1. pd1 = Some d1 \<and> num_replies d1 = 0 \<and> num_losses d1 = 0
           \<and> rtt_results d1 = Some []"
proof -
  from init_shape[OF assms] obtain n d2 tail where
    disp: "handler_dispatch e orc h (Some (data0 0 0)) skel (Some options) n
             = Inr (h1, d2, tail)" and
    res: "pd1 = Some d2"
    by blast
  from dispatch_cases[OF disp] have "num_replies d2 = 0 \<and> num_losses d2 = 0
      \<and> rtt_results d2 = Some []"
    by (auto simp: data0_def split: if_splits)
  with res show ?thesis by simp
qed

lemma step_init_closing:
  assumes init: "ping_step e orc h ALGORITHM_INIT pd skel (Some options)
                   = Inr (0, h1, pd1, acts)"
    and skel: "skel < length h"
    and all: "all_sent orc 0 (unat (count options))"
  shows "\<exists>d1. pd1 = Some d1 \<and> closing_ok (acts, Some d1)
           \<and> within_count options d1
           \<and> num_replies d1 = 0 \<and> rtt_results d1 = Some []
           \<and> skel < length h1
           \<and> length (sent acts) = unat (num_probes_in_flight d1)"
proof -
  from init_shape[OF init] obtain n d2 tail where
    nle: "unat n \<le> unat (count options)" and
    disp: "handler_dispatch e orc h (Some (data0 0 0)) skel (Some options) n
             = Inr (h1, d2, tail)" and
    res: "pd1 = Some d2" "acts = Algorithm_throw ALGORITHM_INIT # tail @ [Event_free]"
    by blast
  note sends = dispatch_sends[OF disp skel all_sent_mono[OF nle all]]
  have flt: "filter is_closing acts = filter is_closing tail"
    by (simp add: res is_closing_def ALL_PROBES_SENT_def WAIT_def)
  have snt: "sent acts = sent tail" by (simp add: res sent_append)
  show ?thesis
  proof (cases "0 < n \<and> num_replies (data0 0 0) + num_probes_in_flight (data0 0 0)
                          \<noteq> ucast (count options)")
    case True
    with dispatch_cases[OF disp]
    have t: "filter is_closing tail = []" "num_replies d2 = 0" "rtt_results d2 = Some []"
      "num_probes_in_flight d2 = n"
      by (simp_all add: data0_def)
    from True have "0 < unat n" by (simp add: word_greater_zero_iff unat_gt_0)
    with sends True have "length (sent tail) = unat n" "sent tail \<noteq> []" "skel < length h1"
      by auto
    then show ?thesis
      using t flt snt nle res by (simp add: closing_ok_def within_count_def)
  next
    case False
    with dispatch_cases[OF disp]
    have t: "d2 = data0 0 0" "tail = [ALL_PROBES_SENT, Raise_terminated]"
      by (simp_all add: data0_def)
    from sends False have "skel < length h1" by simp
    then show ?thesis
      using t flt snt res
      by (simp add: closing_ok_def within_count_def is_closing_def ALL_PROBES_SENT_def
            data0_def)
  qed
qed

lemma closing_okI:
  "filter is_closing acts = filter is_closing tail \<Longrightarrow> sent acts = sent tail
   \<Longrightarrow> filter is_closing tail
         = (if sent tail \<noteq> [] then []
            else if num_probes_in_flight d = 0 then [ALL_PROBES_SENT, Raise_terminated]
            else [WAIT])
   \<Longrightarrow> closing_ok (acts, Some d)"
  by (simp add: closing_ok_def)

text \<open>One invocation on a reply or a timeout that arrives while a probe is in flight.\<close>

lemma step_paired:
  assumes st: "storing (ev, orc)" and sd: "sending (ev, orc)"
    and fl: "num_probes_in_flight d \<noteq> 0"
    and J: "within_count options d"
    and skel: "skel < length h"
    and rtt: "rtt_results d = Some rtts"
  shows "\<exists>r h1 d1 acts rtts1.
           ping_step e orc h ev (Some d) skel (Some options) = Inr (r, h1, Some d1, acts)
           \<and> closing_ok (acts, Some d1)
           \<and> (sent acts \<noteq> [] \<longrightarrow> num_probes_in_flight d1 \<noteq> 0)
           \<and> within_count options d1
           \<and> unat (num_replies d1) = unat (num_replies d) + 1
           \<and> skel < length h1
           \<and> rtt_results d1 = Some rtts1
           \<and> length (sent acts) + unat (num_probes_in_flight d)
               = unat (num_probes_in_flight d1) + 1
           \<and> (unat (count options) \<le> nat INT_MAX \<and> num_probes_in_flight d1 = 0
                \<longrightarrow> unat (num_replies d1) = unat (count options))"
proof -
  from st have pe: "probe_event ev" and mo: "rtt_malloc_ok orc" by (simp_all add: storing_def)
  let ?d = "accounted ev d"
  let ?n = "more_to_send options ?d"
  from handler_probe_event[OF pe, of e orc h d skel options]
  obtain ha d2 tail where
    disp: "handler_dispatch e orc h (Some ?d) skel (Some options) ?n = Inr (ha, d2, tail)" and
    hd: "ping_loop_handler e orc h ev (Some d) skel (Some options)
           = Inr (0, ha, Some d2,
                  [Raise_event (outcome options ev)] @ [Algorithm_throw ev] @ tail @ [Event_free])"
    by blast
  let ?acts = "[Raise_event (outcome options ev)] @ [Algorithm_throw ev] @ tail @ [Event_free]"
  note tl = deliver_tail[OF disp, of ev]
  note cases = dispatch_cases[OF disp]
  have rtt2: "rtt_results d2 = Some rtts"
    using cases rtt by (auto simp: accounted_def split: if_splits)
  from ping_handler_outcome[OF pe mo rtt2, of options] obtain d1 rtts1 where
    ph: "ping_handler orc (outcome options ev) options d2 = Inr d1" and
    rtt1: "rtt_results d1 = Some rtts1"
    by blast
  have step: "ping_step e orc h ev (Some d) skel (Some options) = Inr (0, ha, Some d1, ?acts)"
    using hd ph tl by (simp add: ping_step_def)
  note same = ping_handler_counters[OF ph]
  have one: "all_sent orc 0 (unat ?n)"
    using more_to_send_cases[of options ?d] all_sent_one[OF sd]
    by (auto simp: all_sent_def)
  note sends = dispatch_sends[OF disp skel one]
  have c32: "unat (count options) < 2 ^ 32" by (rule unat_uint_bound)
  from J have rb: "unat (num_replies d) < 2 ^ 32" and fb: "unat (num_probes_in_flight d) < 2 ^ 32"
    and sum: "unat (num_replies d) + unat (num_probes_in_flight d) \<le> unat (count options)"
    using c32 by (simp_all add: within_count_def)
  have r': "unat (num_replies ?d) = unat (num_replies d) + 1"
    using rb by (simp add: accounted_def unat_succ)
  have f': "unat (num_probes_in_flight ?d) = unat (num_probes_in_flight d) - 1"
    using fl by (simp add: accounted_def unat_pred)
  have fpos: "0 < unat (num_probes_in_flight d)" using fl by (simp add: unat_gt_0)
  have tot: "unat (num_replies ?d + num_probes_in_flight ?d)
               = unat (num_replies d) + unat (num_probes_in_flight d)"
    using r' f' fpos rb fb by (simp add: unat_sum)
  have flt: "filter is_closing ?acts = filter is_closing tail"
    using outcome_not_closing[OF pe, of options]
    by (simp add: is_closing_def ALL_PROBES_SENT_def WAIT_def)
  have snt: "sent ?acts = sent tail" by (simp add: sent_append)
  show ?thesis
  proof (cases "0 < ?n \<and> num_replies ?d + num_probes_in_flight ?d \<noteq> ucast (count options)")
    case True
    with cases
    have t: "filter is_closing tail = []" "num_replies d2 = num_replies ?d"
      "num_probes_in_flight d2 = num_probes_in_flight ?d + ?n"
      by simp_all
    from True more_to_send_cases[of options ?d] have n1: "?n = 1" by auto
    have f2: "num_probes_in_flight d2 = num_probes_in_flight d"
      using t(3) n1 by (simp add: accounted_def)
    from sends True n1 have s1: "length (sent tail) = 1" and sk: "skel < length ha" by simp_all
    then have ne: "sent tail \<noteq> []" by auto
    from True have "unat (num_replies ?d + num_probes_in_flight ?d) \<noteq> unat (count options)"
      by (simp add: word_unat_eq_iff unat_ucast_32_64)
    with tot sum have lt: "unat (num_replies d) + unat (num_probes_in_flight d) < unat (count options)"
      by simp
    have c1: "closing_ok (?acts, Some d1)"
      using t(1) ne by (intro closing_okI[OF flt snt]) simp
    have nz: "num_probes_in_flight d1 \<noteq> 0" using same f2 fl by simp
    then have c2: "sent ?acts \<noteq> [] \<longrightarrow> num_probes_in_flight d1 \<noteq> 0" by simp
    have c3: "within_count options d1"
      using same t(2) f2 r' lt by (simp add: within_count_def)
    have c4: "unat (num_replies d1) = unat (num_replies d) + 1"
      using same t(2) r' by simp
    have c5: "length (sent ?acts) + unat (num_probes_in_flight d)
                = unat (num_probes_in_flight d1) + 1"
      using s1 same f2 unfolding snt by simp
    have c6: "unat (count options) \<le> nat INT_MAX \<and> num_probes_in_flight d1 = 0
                \<longrightarrow> unat (num_replies d1) = unat (count options)"
      using nz by simp
    from step c1 c2 c3 c4 sk rtt1 c5 c6 show ?thesis
      by - (intro exI conjI, assumption+)
  next
    case False
    with cases
    have t: "ha = h" "d2 = ?d"
      "tail = (if num_probes_in_flight ?d = 0 then [ALL_PROBES_SENT, Raise_terminated] else [WAIT])"
      by simp_all
    have ns: "sent tail = []" by (simp add: t(3) ALL_PROBES_SENT_def WAIT_def)
    have cl: "filter is_closing tail = tail" by (simp add: t(3) is_closing_def)
    have f1: "num_probes_in_flight d1 = num_probes_in_flight ?d" using same t(2) by simp
    have r1: "unat (num_replies d1) = unat (num_replies d) + 1" using same t(2) r' by simp
    have c1: "closing_ok (?acts, Some d1)"
      using f1 t(3) ns cl by (intro closing_okI[OF flt snt]) simp
    have c2: "sent ?acts \<noteq> [] \<longrightarrow> num_probes_in_flight d1 \<noteq> 0"
      unfolding snt ns by simp
    have c3: "within_count options d1"
      using same t(2) r' f' sum fpos by (simp add: within_count_def)
    have c5: "length (sent ?acts) + unat (num_probes_in_flight d)
                = unat (num_probes_in_flight d1) + 1"
      using f1 f' fpos unfolding snt ns by simp
    have "unat (num_replies d1) = unat (count options)"
      if im: "unat (count options) \<le> nat INT_MAX" and z: "num_probes_in_flight d1 = 0"
    proof -
      from z f1 have z': "num_probes_in_flight ?d = 0" by simp
      from r' f' sum fpos have le: "unat (num_replies ?d) \<le> unat (count options)" by simp
      from False have "?n = 0 \<or> num_replies ?d + num_probes_in_flight ?d = ucast (count options)"
        by (auto simp: word_greater_zero_iff)
      then have "unat (num_replies ?d) = unat (count options)"
      proof
        assume "?n = 0"
        then show ?thesis by (rule more_to_send_zero[OF le im])
      next
        assume "num_replies ?d + num_probes_in_flight ?d = ucast (count options)"
        then have "num_replies ?d = ucast (count options)" using z' by simp
        then show ?thesis by (simp add: unat_ucast_32_64)
      qed
      with same t(2) show ?thesis by simp
    qed
    then have c6: "unat (count options) \<le> nat INT_MAX \<and> num_probes_in_flight d1 = 0
                     \<longrightarrow> unat (num_replies d1) = unat (count options)"
      by blast
    have sk: "skel < length ha" using t(1) skel by simp
    from step c1 c2 c3 r1 sk rtt1 c5 c6 show ?thesis
      by - (intro exI conjI, assumption+)
  qed
qed

lemma entry_count:
  assumes "closing_ok (acts, Some d1)"
    and "sent acts \<noteq> [] \<longrightarrow> num_probes_in_flight d1 \<noteq> 0"
  shows "count_list acts ALL_PROBES_SENT = (if num_probes_in_flight d1 = 0 then 1 else 0)"
proof -
  have "count_list acts ALL_PROBES_SENT = count_list (filter is_closing acts) ALL_PROBES_SENT"
    by (simp add: count_closing is_closing_def)
  with assms show ?thesis
    by (auto simp: closing_ok_def ALL_PROBES_SENT_def WAIT_def split: if_splits)
qed

text \<open>
  A run over replies and timeouts that each answer an outstanding probe, from a state in
  which \<open>num_probes_in_flight\<close> is the number of outstanding probes.
\<close>

lemma admissible_step:
  assumes "ping_step e orc h ev pd skel opts = Inr (r, h1, pd1, acts)"
    and "admissible e skel opts ((ev, orc) # evs) h pd k"
  shows "0 < k \<and> admissible e skel opts evs h1 pd1 (k - 1 + length (sent acts))"
  using assms(2) unfolding admissible.simps assms(1) sum.case prod.case .

lemma run_paired:
  assumes "list_all storing evs" and "list_all sending evs"
    and "admissible e skel (Some options) evs h (Some d) (unat (num_probes_in_flight d))"
    and "within_count options d" and "skel < length h" and "rtt_results d = Some rtts"
  shows "\<exists>h2 d2 entries.
           run e skel (Some options) evs h (Some d) = Inr (h2, Some d2, entries)
           \<and> list_all closing_ok entries
           \<and> count_list (concat (map fst entries)) ALL_PROBES_SENT
               = (if evs \<noteq> [] \<and> num_probes_in_flight d2 = 0 then 1 else 0)
           \<and> within_count options d2
           \<and> unat (num_replies d2) = unat (num_replies d) + length evs
           \<and> length (sent (concat (map fst entries))) + unat (num_probes_in_flight d)
               = unat (num_probes_in_flight d2) + length evs
           \<and> (evs = [] \<longrightarrow> d2 = d)
           \<and> (evs \<noteq> [] \<and> unat (count options) \<le> nat INT_MAX
                \<and> num_probes_in_flight d2 = 0
               \<longrightarrow> unat (num_replies d2) = unat (count options))"
  using assms
proof (induction evs arbitrary: h d rtts)
  case Nil
  then show ?case by simp
next
  case (Cons x evs)
  obtain ev orc where x: "x = (ev, orc)" by (cases x)
  from Cons.prems(1,2) x have st: "storing (ev, orc)" and sd: "sending (ev, orc)"
    and sts: "list_all storing evs" and sds: "list_all sending evs"
    by simp_all
  from Cons.prems(3) x have kpos: "0 < unat (num_probes_in_flight d)" by simp
  then have fl: "num_probes_in_flight d \<noteq> 0" by (simp add: unat_gt_0)
  from step_paired[OF st sd fl Cons.prems(4,5,6), of e]
  obtain r h1 d1 acts rtts1 where
    step: "ping_step e orc h ev (Some d) skel (Some options) = Inr (r, h1, Some d1, acts)" and
    d1: "closing_ok (acts, Some d1)"
      "sent acts \<noteq> [] \<longrightarrow> num_probes_in_flight d1 \<noteq> 0"
      "within_count options d1"
      "unat (num_replies d1) = unat (num_replies d) + 1"
      "skel < length h1"
      "rtt_results d1 = Some rtts1"
      "length (sent acts) + unat (num_probes_in_flight d) = unat (num_probes_in_flight d1) + 1"
      "unat (count options) \<le> nat INT_MAX \<and> num_probes_in_flight d1 = 0
         \<longrightarrow> unat (num_replies d1) = unat (count options)"
    by blast
  from d1(7) kpos
  have k: "unat (num_probes_in_flight d) - 1 + length (sent acts)
             = unat (num_probes_in_flight d1)"
    by linarith
  from admissible_step[OF step Cons.prems(3)[unfolded x]]
  have "admissible e skel (Some options) evs h1 (Some d1)
          (unat (num_probes_in_flight d) - 1 + length (sent acts))"
    by (rule conjunct2)
  then have adm:
    "admissible e skel (Some options) evs h1 (Some d1) (unat (num_probes_in_flight d1))"
    unfolding k .
  from Cons.IH[OF sts sds adm d1(3,5,6)] obtain h2 d2 entries where
    ih: "run e skel (Some options) evs h1 (Some d1) = Inr (h2, Some d2, entries)"
      "list_all closing_ok entries"
      "count_list (concat (map fst entries)) ALL_PROBES_SENT
         = (if evs \<noteq> [] \<and> num_probes_in_flight d2 = 0 then 1 else 0)"
      "within_count options d2"
      "unat (num_replies d2) = unat (num_replies d1) + length evs"
      "length (sent (concat (map fst entries))) + unat (num_probes_in_flight d1)
         = unat (num_probes_in_flight d2) + length evs"
      "evs = [] \<longrightarrow> d2 = d1"
      "evs \<noteq> [] \<and> unat (count options) \<le> nat INT_MAX \<and> num_probes_in_flight d2 = 0
         \<longrightarrow> unat (num_replies d2) = unat (count options)"
    by blast
  have run: "run e skel (Some options) (x # evs) h (Some d)
               = Inr (h2, Some d2, (acts, Some d1) # entries)"
    using x step ih(1) by simp
  note one = entry_count[OF d1(1,2)]
  have cnt: "count_list (concat (map fst ((acts, Some d1) # entries))) ALL_PROBES_SENT
               = (if x # evs \<noteq> [] \<and> num_probes_in_flight d2 = 0 then 1 else 0)"
  proof (cases "evs = []")
    case True
    with ih(3,7) one show ?thesis by simp
  next
    case False
    then obtain y ys where "evs = y # ys" by (cases evs) auto
    with adm have "0 < unat (num_probes_in_flight d1)" by (cases y) simp
    then have "num_probes_in_flight d1 \<noteq> 0" by (simp add: unat_gt_0)
    with one ih(3) False show ?thesis by simp
  qed
  have all: "list_all closing_ok ((acts, Some d1) # entries)" using d1(1) ih(2) by simp
  have rep: "unat (num_replies d2) = unat (num_replies d) + length (x # evs)"
    using d1(4) ih(5) by simp
  have snt: "length (sent (concat (map fst ((acts, Some d1) # entries))))
               + unat (num_probes_in_flight d)
             = unat (num_probes_in_flight d2) + length (x # evs)"
    using d1(7) ih(6) by (simp add: sent_append)
  have fin: "x # evs \<noteq> [] \<and> unat (count options) \<le> nat INT_MAX
               \<and> num_probes_in_flight d2 = 0
             \<longrightarrow> unat (num_replies d2) = unat (count options)"
    using d1(8) ih(7,8) by (cases "evs = []") auto
  have nonempty: "x # evs = [] \<longrightarrow> d2 = d" by simp
  from run all cnt ih(4) rep snt nonempty fin show ?case
    by - (intro exI conjI, assumption+)
qed

text \<open>
  The invocation on \<open>ALGORITHM_INIT\<close> when the conversion of the quotient is defined
  and the data are allocated.
\<close>

lemma init_burst:
  assumes "0 < interval options" and "0 < network_timeout e"
    and "\<lfloor>double_div (network_timeout e) (interval options)\<rfloor> \<le> INT_MAX"
    and "data_create_ok orc"
  shows "\<exists>h1 d1 acts.
           ping_loop_handler e orc h ALGORITHM_INIT pdata probe_skel (Some options)
             = Inr (0, h1, Some d1, acts)
           \<and> unat (num_probes_in_flight d1)
               = min (nat \<lfloor>double_div (network_timeout e) (interval options)\<rfloor>)
                   (unat (count options))
           \<and> (probe_skel < length h
                \<and> all_sent orc 0
                     (min (nat \<lfloor>double_div (network_timeout e) (interval options)\<rfloor>)
                        (unat (count options)))
               \<longrightarrow> sent acts
                     = [length h ..< length h
                          + min (nat \<lfloor>double_div (network_timeout e) (interval options)\<rfloor>)
                              (unat (count options))]
                   \<and> probes d1 = sent acts)"
proof -
  let ?q = "\<lfloor>double_div (network_timeout e) (interval options)\<rfloor>"
  let ?K = "min (nat ?q) (unat (count options))"
  let ?n = "ucast (MIN_uint (word_of_int ?q) (count options)) :: size_t"
  let ?d0 = "\<lparr>num_replies = 0, num_losses = 0, num_probes_in_flight = 0,
              probes = [], rtt_results = Some []\<rparr>"
  have "0 \<le> network_timeout e / interval options" using assms(1,2) by simp
  then have pos: "0 \<le> double_div (network_timeout e) (interval options)"
    unfolding double_div_def by (rule round_double_nonneg)
  then have q0: "0 \<le> ?q" by simp
  have conv: "double_to_int (double_div (network_timeout e) (interval options)) = Inr ?q"
    using pos q0 assms(3) by (simp add: double_to_int_def trunc_to_zero_def INT_MIN_def Let_def)
  have n: "unat ?n = ?K"
    by (simp add: unat_ucast_32_64 unat_MIN_uint unat_word_of_int_32[OF q0 assms(3)])
  have sw: "handler_switch e orc ALGORITHM_INIT pdata (Some options)
              = Inr (CONTINUE (Some ?d0) (Some ?d0) ?n [])"
    using assms(1,4) conv by (simp add: handler_switch_def ping_data_create_def)
  show ?thesis
  proof (cases "?n = 0")
    case True
    then have K0: "?K = 0" using n by simp
    have "handler_dispatch e orc h (Some ?d0) probe_skel (Some options) ?n
            = Inr (h, ?d0, [Raise_event (Ping_event PING_ALL_PROBES_SENT NO_DATA),
                            Raise_terminated])"
      using True by (simp add: handler_dispatch_def)
    with sw have "ping_loop_handler e orc h ALGORITHM_INIT pdata probe_skel (Some options)
        = Inr (0, h, Some ?d0, [] @ [Algorithm_throw ALGORITHM_INIT]
             @ [Raise_event (Ping_event PING_ALL_PROBES_SENT NO_DATA), Raise_terminated]
             @ [Event_free])"
      by (simp add: ping_loop_handler_def)
    then show ?thesis unfolding K0 by (intro exI conjI, assumption) simp_all
  next
    case False
    then have npos: "0 < ?n" by (simp add: word_greater_zero_iff)
    have "0 < ?K" using False n by (metis unsigned_eq_0_iff not_gr_zero)
    then have "count options \<noteq> 0" by (auto simp: min_def split: if_splits)
    then have cnt: "(0 :: size_t) \<noteq> ucast (count options)"
      using ucast_32_64_eq_0[of "count options"] by simp
    obtain ok h1 d1 acts where sp:
      "send_ping_probes e orc h ?d0 probe_skel ?n = (ok, h1, d1, acts)"
      by (cases "send_ping_probes e orc h ?d0 probe_skel ?n") auto
    have d1: "num_probes_in_flight d1 = 0"
      using send_ping_probes_loop_counters[OF sp[unfolded send_ping_probes_def]] by simp
    let ?d2 = "d1\<lparr>num_probes_in_flight := num_probes_in_flight d1 + ?n\<rparr>"
    have disp: "handler_dispatch e orc h (Some ?d0) probe_skel (Some options) ?n
                  = Inr (h1, ?d2, acts)"
      using npos cnt sp by (simp add: handler_dispatch_def)
    with sw have res: "ping_loop_handler e orc h ALGORITHM_INIT pdata probe_skel (Some options)
        = Inr (0, h1, Some ?d2, [] @ [Algorithm_throw ALGORITHM_INIT] @ acts @ [Event_free])"
      by (simp add: ping_loop_handler_def)
    have fl: "unat (num_probes_in_flight ?d2) = ?K" using d1 n by simp
    have full: "sent ([] @ [Algorithm_throw ALGORITHM_INIT] @ acts @ [Event_free])
                  = [length h ..< length h + ?K]
                \<and> probes ?d2 = sent ([] @ [Algorithm_throw ALGORITHM_INIT] @ acts @ [Event_free])"
      if skel: "probe_skel < length h" and all: "all_sent orc 0 ?K"
    proof -
      from send_ping_probes_loop_heap[OF skel sp[unfolded send_ping_probes_def]]
      obtain m where m: "all_sent orc 0 (unat ?n) \<longrightarrow>
          ok \<and> m = unat ?n - 0
          \<and> probes d1 = probes ?d0 @ [length h ..< length h + m]
          \<and> acts = map Send_probe [length h ..< length h + m]"
        by blast
      with all n have "m = ?K" "probes d1 = [length h ..< length h + m]"
        "acts = map Send_probe [length h ..< length h + m]"
        by simp_all
      then show ?thesis by (simp add: sent_append sent_map_Send_probe)
    qed
    have imp: "probe_skel < length h \<and> all_sent orc 0 ?K
        \<longrightarrow> sent ([] @ [Algorithm_throw ALGORITHM_INIT] @ acts @ [Event_free])
              = [length h ..< length h + ?K]
            \<and> probes ?d2 = sent ([] @ [Algorithm_throw ALGORITHM_INIT] @ acts @ [Event_free])"
      using full by blast
    from res fl imp show ?thesis by - (intro exI conjI, assumption+)
  qed
qed

lemma reply_event_type_reached:
  "(reply_event_type dst reply = PING_PROBE_REPLY) = destination_reached dst reply"
  by (simp add: reply_event_type_def)

lemma step_storing:
  assumes pe: "probe_event ev" and ok: "rtt_malloc_ok orc" "rtt_push_ok orc"
    and rtt: "rtt_results d = Some rtts"
  shows "\<exists>r h1 d1 acts.
           ping_step e orc h ev (Some d) skel (Some options) = Inr (r, h1, Some d1, acts)
           \<and> rtt_results d1
               = Some (rtts @ (if from_destination options ev then [sample ev] else []))
           \<and> num_replies d1 = num_replies d + 1
           \<and> num_losses d1 = num_losses d + (if is_timeout ev then 1 else 0)"
proof -
  let ?d = "accounted ev d"
  let ?n = "more_to_send options ?d"
  from handler_probe_event[OF pe, of e orc h d skel options]
  obtain ha d2 tail where
    disp: "handler_dispatch e orc h (Some ?d) skel (Some options) ?n = Inr (ha, d2, tail)" and
    hd: "ping_loop_handler e orc h ev (Some d) skel (Some options)
           = Inr (0, ha, Some d2,
                  [Raise_event (outcome options ev)] @ [Algorithm_throw ev] @ tail @ [Event_free])"
    by blast
  note tl = deliver_tail[OF disp, of ev]
  have d2: "rtt_results d2 = Some rtts" "num_replies d2 = num_replies d + 1"
    "num_losses d2 = num_losses d + (if is_timeout ev then 1 else 0)"
    using dispatch_cases[OF disp] rtt by (auto simp: accounted_def split: if_splits)
  let ?d3 = "d2\<lparr>rtt_results :=
                 Some (rtts @ (if from_destination options ev then [sample ev] else []))\<rparr>"
  have ph: "ping_handler orc (outcome options ev) options d2 = Inr ?d3"
    using pe ok d2(1)
    by (cases ev)
       (auto simp: probe_event_def outcome_def ping_handler_def from_destination_def sample_def
          reply_event_type_reached[symmetric]
          split: ping_event_type.splits)
  have "ping_step e orc h ev (Some d) skel (Some options)
          = Inr (0, ha, Some ?d3,
                 [Raise_event (outcome options ev)] @ [Algorithm_throw ev] @ tail @ [Event_free])"
    using hd ph tl by (simp add: ping_step_def)
  then show ?thesis using d2 by (intro exI conjI) (assumption | simp)+
qed

lemma run_storing:
  assumes "list_all storing evs" and "rtt_results d = Some rtts"
  shows "\<exists>h2 d2 entries.
           run e skel (Some options) evs h (Some d) = Inr (h2, Some d2, entries)
           \<and> rtt_results d2
               = Some (rtts @ map sample (filter (from_destination options) (map fst evs)))
           \<and> num_replies d2 = num_replies d + of_nat (length evs)
           \<and> num_losses d2 = num_losses d + of_nat (length (filter is_timeout (map fst evs)))"
  using assms
proof (induction evs arbitrary: h d rtts)
  case Nil
  then show ?case by simp
next
  case (Cons x evs)
  obtain ev orc where x: "x = (ev, orc)" by (cases x)
  from Cons.prems(1) x have one: "storing (ev, orc)" and rest: "list_all storing evs"
    by simp_all
  from one have pe: "probe_event ev" and ok: "rtt_malloc_ok orc" "rtt_push_ok orc"
    by (simp_all add: storing_def)
  from step_storing[OF pe ok Cons.prems(2), of e h skel options]
  obtain r h1 d1 acts where
    st: "ping_step e orc h ev (Some d) skel (Some options) = Inr (r, h1, Some d1, acts)" and
    d1: "rtt_results d1
           = Some (rtts @ (if from_destination options ev then [sample ev] else []))"
      "num_replies d1 = num_replies d + 1"
      "num_losses d1 = num_losses d + (if is_timeout ev then 1 else 0)"
    by blast
  from Cons.IH[OF rest d1(1), of h1] obtain h2 d2 entries where
    ih: "run e skel (Some options) evs h1 (Some d1) = Inr (h2, Some d2, entries)"
      "rtt_results d2
         = Some ((rtts @ (if from_destination options ev then [sample ev] else []))
                 @ map sample (filter (from_destination options) (map fst evs)))"
      "num_replies d2 = num_replies d1 + of_nat (length evs)"
      "num_losses d2 = num_losses d1 + of_nat (length (filter is_timeout (map fst evs)))"
    by blast
  have "run e skel (Some options) (x # evs) h (Some d)
          = Inr (h2, Some d2, (acts, Some d1) # entries)"
    using x st ih(1) by simp
  then show ?case
    using ih(2,3,4) d1(2,3) x by (intro exI conjI) (assumption | simp)+
qed

lemma probe_event_kinds:
  "list_all storing evs \<Longrightarrow>
   length evs = length (filter (from_destination options) (map fst evs))
              + length (filter (from_elsewhere options) (map fst evs))
              + length (filter is_timeout (map fst evs))"
proof (induction evs)
  case Nil
  then show ?case by simp
next
  case (Cons x evs)
  obtain ev orc where x: "x = (ev, orc)" by (cases x)
  from Cons.prems x have one: "storing (ev, orc)" and rest: "list_all storing evs"
    by simp_all
  from one Cons.IH[OF rest] x show ?case
    by (cases ev)
       (simp_all add: storing_def probe_event_def from_destination_def from_elsewhere_def
          is_timeout_def)
qed

lemmas eval_defs =
  ping_step_def ping_loop_handler_def handler_switch_def handler_dispatch_def
  send_ping_probes_def send_ping_probes_loop.simps send_ping_probe_def probe_dup_def
  probe_set_delay_def probe_get_delay_def probe_get_recv_time_def probe_get_sending_time_def
  ping_data_create_def double_to_int_def trunc_to_zero_def INT_MIN_def INT_MAX_def
  MIN_uint_def more_to_send_def reply_event_type_def destination_reached_def
  probe_extract_address_def probe_extract_u8_def address_compare_def ping_handler_def
  delay_get_def destination_network_unreachable_def destination_host_unreachable_def
  destination_protocol_unreachable_def destination_port_unreachable_def ttl_exceeded_def
  fragment_reassembly_time_exceeded_def redirect_def parameter_problem_def
  env0_def all_ok_def options_to_def skeleton_with_delay_def make_reply_def
  reply_event_def timeout_event_def EINVAL_def double_defs icmp_constants

lemma data_after_simps:
  "num_replies (data_after r l f rtts) = r"
  "num_losses (data_after r l f rtts) = l"
  "num_probes_in_flight (data_after r l f rtts) = f"
  "rtt_results (data_after r l f rtts) = Some rtts"
  by (simp_all add: data_after_def)

lemma example_events:
  "probe_event (reply_event t c a)" "probe_event timeout_event"
  "storing (reply_event t c a, all_ok)" "storing (timeout_event, all_ok)"
  by (simp_all add: probe_event_def storing_def reply_event_def timeout_event_def all_ok_def)

lemma example_init:
  "ping_step env0 all_ok [skeleton_with_delay (1 / 2)] ALGORITHM_INIT None 0
       (Some (options_to (IPv4 1) 2))
     = Inr (0, heap_after, Some (data_after 0 0 2 []),
            [Algorithm_throw ALGORITHM_INIT, Send_probe 1, Send_probe 2, Event_free])"
  by (simp add: eval_defs data_after_def heap_after_def)

lemma example_reply:
  "ping_step env0 all_ok heap_after (reply_event 0 0 (IPv4 1)) (Some (data_after 0 0 2 [])) 0
       (Some (options_to (IPv4 1) 2))
     = Inr (0, heap_after, Some (data_after 1 0 1 [0]),
            [Raise_event (Ping_event PING_PROBE_REPLY
               (REPLY_DATA (Probe_reply (skeleton_with_delay (1 / 2)) (make_reply 4 0 0 (IPv4 1))))),
             Algorithm_throw (reply_event 0 0 (IPv4 1)), WAIT, Event_free])"
  by (simp add: eval_defs data_after_def heap_after_def WAIT_def)

lemma example_elsewhere:
  "ping_step env0 all_ok heap_after (reply_event ICMP_TIMXCEED ICMP_TIMXCEED_INTRANS (IPv4 9))
       (Some (data_after 0 0 2 [])) 0 (Some (options_to (IPv4 1) 2))
     = Inr (0, heap_after, Some (data_after 1 0 1 []),
            [Raise_event (Ping_event PING_TTL_EXCEEDED_TRANSIT
               (REPLY_DATA (Probe_reply (skeleton_with_delay (1 / 2))
                  (make_reply 4 ICMP_TIMXCEED ICMP_TIMXCEED_INTRANS (IPv4 9))))),
             Algorithm_throw (reply_event ICMP_TIMXCEED ICMP_TIMXCEED_INTRANS (IPv4 9)),
             WAIT, Event_free])"
  by (simp add: eval_defs data_after_def heap_after_def WAIT_def)

lemma example_timeout:
  "ping_step env0 all_ok heap_after timeout_event (Some (data_after 1 0 1 [0])) 0
       (Some (options_to (IPv4 1) 2))
     = Inr (0, heap_after, Some (data_after 2 1 0 [0]),
            [Raise_event (Ping_event PING_TIMEOUT (PROBE_DATA (skeleton_with_delay (1 / 2)))),
             Algorithm_throw timeout_event, ALL_PROBES_SENT, Raise_terminated, Event_free])"
  by (simp add: eval_defs data_after_def heap_after_def ALL_PROBES_SENT_def)

subsection \<open>Classification of replies\<close>

text \<open>
  C1. For every reply event whose extracted \<open>src_ip\<close> equals the configured destination
  address, the handler returns normally and the outcome it raises for the reply is
  \<open>PING_PROBE_REPLY\<close>, whatever the version, type and code of the reply are: the
  destination test comes first in the chain. The only other outcomes raised in the same
  invocation are the closing \<open>PING_ALL_PROBES_SENT\<close> or \<open>PING_WAIT\<close>.
\<close>

theorem reply_from_destination:
  assumes "probe_extract_address (the_reply pr) ''src_ip'' = Some a"
    and "address_compare (dst_addr options) a = 0"
  shows "\<exists>h1 d1 acts rest.
           ping_loop_handler e orc h (PROBE_REPLY pr) (Some d) skel (Some options)
             = Inr (0, h1, Some d1, acts)
           \<and> raised acts = PING_PROBE_REPLY # rest
           \<and> (rest = [] \<or> rest = [PING_ALL_PROBES_SENT] \<or> rest = [PING_WAIT])"
proof -
  have "reply_event_type (dst_addr options) (the_reply pr) = PING_PROBE_REPLY"
    using assms by (simp add: reply_event_type_def destination_reached_def)
  with handler_reply[of e orc h pr d skel options] show ?thesis by auto
qed

theorem reply_from_destination_witness:
  "probe_extract_address (the_reply (Probe_reply (make_reply 4 0 0 (IPv4 1))
        (make_reply 4 ICMP_REDIRECT ICMP_REDIRECT_NET (IPv4 1)))) ''src_ip'' = Some (IPv4 1)
   \<and> address_compare (dst_addr (options_to (IPv4 1) 2)) (IPv4 1) = 0
   \<and> (\<exists>h1 d1 acts rest.
           ping_loop_handler env0 all_ok [make_reply 4 0 0 (IPv4 1)]
               (PROBE_REPLY (Probe_reply (make_reply 4 0 0 (IPv4 1))
                  (make_reply 4 ICMP_REDIRECT ICMP_REDIRECT_NET (IPv4 1))))
               (Some (data0 0 2)) 0 (Some (options_to (IPv4 1) 2))
             = Inr (0, h1, Some d1, acts)
           \<and> raised acts = PING_PROBE_REPLY # rest
           \<and> (rest = [] \<or> rest = [PING_ALL_PROBES_SENT] \<or> rest = [PING_WAIT]))"
proof -
  have a: "probe_extract_address (the_reply (Probe_reply (make_reply 4 0 0 (IPv4 1))
        (make_reply 4 ICMP_REDIRECT ICMP_REDIRECT_NET (IPv4 1)))) ''src_ip'' = Some (IPv4 1)"
    by (simp add: probe_extract_address_def make_reply_def)
  have b: "address_compare (dst_addr (options_to (IPv4 1) 2)) (IPv4 1) = 0"
    by (simp add: address_compare_def options_to_def)
  from reply_from_destination[OF a b] a b show ?thesis by blast
qed

text \<open>
  C2. For every IPv4 reply (version field 4) that does not match the destination, type
  \<open>ICMP_UNREACH\<close> with code \<open>ICMP_UNREACH_HOST\<close> is reported as
  \<open>PING_DST_NET_UNREACHABLE\<close>, and with code \<open>ICMP_UNREACH_NET\<close> as
  \<open>PING_DST_HOST_UNREACHABLE\<close>: the swapped mapping of the table.
\<close>

theorem ipv4_unreachable_mapping:
  assumes "\<not> destination_reached (dst_addr options) (the_reply pr)"
    and "probe_extract_u8 (the_reply pr) ''version'' 0 = 4"
    and "probe_extract_u8 (the_reply pr) ''type'' 0 = ICMP_UNREACH"
    and "probe_extract_u8 (the_reply pr) ''code'' 0 = c"
    and "c = ICMP_UNREACH_HOST \<or> c = ICMP_UNREACH_NET"
  shows "\<exists>h1 d1 acts rest.
           ping_loop_handler e orc h (PROBE_REPLY pr) (Some d) skel (Some options)
             = Inr (0, h1, Some d1, acts)
           \<and> raised acts =
               (if c = ICMP_UNREACH_HOST then PING_DST_NET_UNREACHABLE
                else PING_DST_HOST_UNREACHABLE) # rest
           \<and> (rest = [] \<or> rest = [PING_ALL_PROBES_SENT] \<or> rest = [PING_WAIT])"
proof -
  have "reply_event_type (dst_addr options) (the_reply pr) =
          (if c = ICMP_UNREACH_HOST then PING_DST_NET_UNREACHABLE else PING_DST_HOST_UNREACHABLE)"
    using assms
    by (auto simp: reply_event_type_def destination_network_unreachable_def
          destination_host_unreachable_def Let_def icmp_constants)
  with handler_reply[of e orc h pr d skel options] show ?thesis by auto
qed

theorem ipv4_unreachable_mapping_witness:
  "\<not> destination_reached (dst_addr (options_to (IPv4 1) 2))
        (the_reply (Probe_reply (make_reply 4 0 0 (IPv4 1))
           (make_reply 4 ICMP_UNREACH ICMP_UNREACH_HOST (IPv4 9))))
   \<and> probe_extract_u8 (the_reply (Probe_reply (make_reply 4 0 0 (IPv4 1))
           (make_reply 4 ICMP_UNREACH ICMP_UNREACH_HOST (IPv4 9)))) ''version'' 0 = 4
   \<and> probe_extract_u8 (the_reply (Probe_reply (make_reply 4 0 0 (IPv4 1))
           (make_reply 4 ICMP_UNREACH ICMP_UNREACH_HOST (IPv4 9)))) ''type'' 0 = ICMP_UNREACH
   \<and> probe_extract_u8 (the_reply (Probe_reply (make_reply 4 0 0 (IPv4 1))
           (make_reply 4 ICMP_UNREACH ICMP_UNREACH_HOST (IPv4 9)))) ''code'' 0
        = ICMP_UNREACH_HOST
   \<and> (\<exists>h1 d1 acts rest.
           ping_loop_handler env0 all_ok [make_reply 4 0 0 (IPv4 1)]
               (PROBE_REPLY (Probe_reply (make_reply 4 0 0 (IPv4 1))
                  (make_reply 4 ICMP_UNREACH ICMP_UNREACH_HOST (IPv4 9))))
               (Some (data0 0 2)) 0 (Some (options_to (IPv4 1) 2))
             = Inr (0, h1, Some d1, acts)
           \<and> raised acts = PING_DST_NET_UNREACHABLE # rest
           \<and> (rest = [] \<or> rest = [PING_ALL_PROBES_SENT] \<or> rest = [PING_WAIT]))"
proof -
  let ?pr = "Probe_reply (make_reply 4 0 0 (IPv4 1))
               (make_reply 4 ICMP_UNREACH ICMP_UNREACH_HOST (IPv4 9))"
  have a: "\<not> destination_reached (dst_addr (options_to (IPv4 1) 2)) (the_reply ?pr)"
    by (simp add: destination_reached_def probe_extract_address_def make_reply_def
          address_compare_def options_to_def)
  have b: "probe_extract_u8 (the_reply ?pr) ''version'' 0 = 4"
    by (simp add: probe_extract_u8_def make_reply_def)
  have c: "probe_extract_u8 (the_reply ?pr) ''type'' 0 = ICMP_UNREACH"
    by (simp add: probe_extract_u8_def make_reply_def)
  have d: "probe_extract_u8 (the_reply ?pr) ''code'' 0 = ICMP_UNREACH_HOST"
    by (simp add: probe_extract_u8_def make_reply_def)
  have "\<exists>h1 d1 acts rest.
           ping_loop_handler env0 all_ok [make_reply 4 0 0 (IPv4 1)] (PROBE_REPLY ?pr)
               (Some (data0 0 2)) 0 (Some (options_to (IPv4 1) 2))
             = Inr (0, h1, Some d1, acts)
           \<and> raised acts = PING_DST_NET_UNREACHABLE # rest
           \<and> (rest = [] \<or> rest = [PING_ALL_PROBES_SENT] \<or> rest = [PING_WAIT])"
    using ipv4_unreachable_mapping[OF a b c d, of env0 all_ok "[make_reply 4 0 0 (IPv4 1)]"
            "data0 0 2" 0]
    by simp
  with a b c d show ?thesis by blast
qed

text \<open>
  C3. For every IPv6 reply (version field not 4) that does not match the destination,
  with type \<open>ICMP6_PARAM_PROB\<close> and code \<open>ICMP6_PARAMPROB_NEXTHEADER\<close>, the outcome
  raised is \<open>PING_DST_PROT_UNREACHABLE\<close> and \<open>PING_PARAMETER_PROBLEM\<close> is not raised.
\<close>

theorem ipv6_nextheader_is_protocol_unreachable:
  assumes "\<not> destination_reached (dst_addr options) (the_reply pr)"
    and "probe_extract_u8 (the_reply pr) ''version'' 0 \<noteq> 4"
    and "probe_extract_u8 (the_reply pr) ''type'' 0 = ICMP6_PARAM_PROB"
    and "probe_extract_u8 (the_reply pr) ''code'' 0 = ICMP6_PARAMPROB_NEXTHEADER"
  shows "\<exists>h1 d1 acts rest.
           ping_loop_handler e orc h (PROBE_REPLY pr) (Some d) skel (Some options)
             = Inr (0, h1, Some d1, acts)
           \<and> raised acts = PING_DST_PROT_UNREACHABLE # rest
           \<and> PING_PARAMETER_PROBLEM \<notin> set (raised acts)
           \<and> (rest = [] \<or> rest = [PING_ALL_PROBES_SENT] \<or> rest = [PING_WAIT])"
proof -
  have "reply_event_type (dst_addr options) (the_reply pr) = PING_DST_PROT_UNREACHABLE"
    using assms
    by (auto simp: reply_event_type_def destination_network_unreachable_def
          destination_host_unreachable_def destination_protocol_unreachable_def
          Let_def icmp_constants)
  with handler_reply[of e orc h pr d skel options] show ?thesis by auto
qed

theorem ipv6_nextheader_is_protocol_unreachable_witness:
  "\<not> destination_reached (dst_addr (options_to (IPv6 1) 2))
        (the_reply (Probe_reply (make_reply 6 0 0 (IPv6 1))
           (make_reply 6 ICMP6_PARAM_PROB ICMP6_PARAMPROB_NEXTHEADER (IPv6 9))))
   \<and> probe_extract_u8 (the_reply (Probe_reply (make_reply 6 0 0 (IPv6 1))
           (make_reply 6 ICMP6_PARAM_PROB ICMP6_PARAMPROB_NEXTHEADER (IPv6 9)))) ''version'' 0
        \<noteq> 4
   \<and> probe_extract_u8 (the_reply (Probe_reply (make_reply 6 0 0 (IPv6 1))
           (make_reply 6 ICMP6_PARAM_PROB ICMP6_PARAMPROB_NEXTHEADER (IPv6 9)))) ''type'' 0
        = ICMP6_PARAM_PROB
   \<and> probe_extract_u8 (the_reply (Probe_reply (make_reply 6 0 0 (IPv6 1))
           (make_reply 6 ICMP6_PARAM_PROB ICMP6_PARAMPROB_NEXTHEADER (IPv6 9)))) ''code'' 0
        = ICMP6_PARAMPROB_NEXTHEADER
   \<and> (\<exists>h1 d1 acts rest.
           ping_loop_handler env0 all_ok [make_reply 6 0 0 (IPv6 1)]
               (PROBE_REPLY (Probe_reply (make_reply 6 0 0 (IPv6 1))
                  (make_reply 6 ICMP6_PARAM_PROB ICMP6_PARAMPROB_NEXTHEADER (IPv6 9))))
               (Some (data0 0 2)) 0 (Some (options_to (IPv6 1) 2))
             = Inr (0, h1, Some d1, acts)
           \<and> raised acts = PING_DST_PROT_UNREACHABLE # rest
           \<and> PING_PARAMETER_PROBLEM \<notin> set (raised acts)
           \<and> (rest = [] \<or> rest = [PING_ALL_PROBES_SENT] \<or> rest = [PING_WAIT]))"
proof -
  let ?pr = "Probe_reply (make_reply 6 0 0 (IPv6 1))
               (make_reply 6 ICMP6_PARAM_PROB ICMP6_PARAMPROB_NEXTHEADER (IPv6 9))"
  have a: "\<not> destination_reached (dst_addr (options_to (IPv6 1) 2)) (the_reply ?pr)"
    by (simp add: destination_reached_def probe_extract_address_def make_reply_def
          address_compare_def options_to_def)
  have b: "probe_extract_u8 (the_reply ?pr) ''version'' 0 \<noteq> 4"
    by (simp add: probe_extract_u8_def make_reply_def)
  have c: "probe_extract_u8 (the_reply ?pr) ''type'' 0 = ICMP6_PARAM_PROB"
    by (simp add: probe_extract_u8_def make_reply_def)
  have d: "probe_extract_u8 (the_reply ?pr) ''code'' 0 = ICMP6_PARAMPROB_NEXTHEADER"
    by (simp add: probe_extract_u8_def make_reply_def)
  have "\<exists>h1 d1 acts rest.
           ping_loop_handler env0 all_ok [make_reply 6 0 0 (IPv6 1)] (PROBE_REPLY ?pr)
               (Some (data0 0 2)) 0 (Some (options_to (IPv6 1) 2))
             = Inr (0, h1, Some d1, acts)
           \<and> raised acts = PING_DST_PROT_UNREACHABLE # rest
           \<and> PING_PARAMETER_PROBLEM \<notin> set (raised acts)
           \<and> (rest = [] \<or> rest = [PING_ALL_PROBES_SENT] \<or> rest = [PING_WAIT])"
    using ipv6_nextheader_is_protocol_unreachable[OF a b c d, of env0 all_ok
            "[make_reply 6 0 0 (IPv6 1)]" "data0 0 2" 0]
    by simp
  with a b c d show ?thesis by blast
qed

subsection \<open>The end of a run\<close>

text \<open>
  C4. Take one instance whose \<open>ALGORITHM_INIT\<close> has succeeded from a valid skeleton with
  no failing dispatch, followed by any sequence of replies and timeouts that each answer
  an outstanding probe, during whose handling the sample can be stored and the dispatch
  of one more probe does not fail. The run has no fault. Every invocation closes as it
  must: when it has sent a probe it raises neither \<open>PING_ALL_PROBES_SENT\<close> nor
  \<open>PING_WAIT\<close>; when it has sent none it raises \<open>PING_ALL_PROBES_SENT\<close>, immediately
  followed by the termination signal, if \<open>num_probes_in_flight\<close> is 0 at its exit, and
  \<open>PING_WAIT\<close> alone otherwise. Over the whole run \<open>PING_ALL_PROBES_SENT\<close> is raised once
  if the run has reached \<open>num_probes_in_flight = 0\<close> and not at all before that. The
  probes sent are the events handled plus the probes in flight, and never more than
  \<open>count\<close>. When the initial burst is not empty and \<open>count\<close> is at most \<open>INT_MAX\<close>,
  \<open>num_probes_in_flight = 0\<close> is reached only when \<open>count\<close> probes have been sent and
  each of them has had its reply or timeout.
\<close>

theorem all_probes_sent_once:
  assumes init: "ping_step e orc0 h0 ALGORITHM_INIT pd0 skel (Some options)
                   = Inr (0, h1, pd1, acts0)"
    and skel: "skel < length h0"
    and all: "all_sent orc0 0 (unat (count options))"
    and st: "list_all storing evs"
    and sd: "list_all sending evs"
    and adm: "admissible e skel (Some options) evs h1 pd1 (length (sent acts0))"
  shows "\<exists>h2 d2 entries.
           run e skel (Some options) evs h1 pd1 = Inr (h2, Some d2, entries)
           \<and> list_all closing_ok ((acts0, pd1) # entries)
           \<and> count_list (concat (acts0 # map fst entries)) ALL_PROBES_SENT
               = (if num_probes_in_flight d2 = 0 then 1 else 0)
           \<and> length (sent (concat (acts0 # map fst entries)))
               = length evs + unat (num_probes_in_flight d2)
           \<and> length (sent (concat (acts0 # map fst entries))) \<le> unat (count options)
           \<and> (sent acts0 \<noteq> [] \<and> unat (count options) \<le> nat INT_MAX
                \<and> num_probes_in_flight d2 = 0
               \<longrightarrow> length (sent (concat (acts0 # map fst entries))) = unat (count options)
                   \<and> length evs = unat (count options))"
proof -
  from step_init_closing[OF init skel all] obtain d1 where
    d1: "pd1 = Some d1" "closing_ok (acts0, Some d1)" "within_count options d1"
      "num_replies d1 = 0" "rtt_results d1 = Some []" "skel < length h1"
      "length (sent acts0) = unat (num_probes_in_flight d1)"
    by blast
  from d1(7) have first: "sent acts0 \<noteq> [] \<longrightarrow> num_probes_in_flight d1 \<noteq> 0" by auto
  from run_paired[OF st sd adm[unfolded d1(1) d1(7)] d1(3,6,5)] obtain h2 d2 entries where
    r: "run e skel (Some options) evs h1 (Some d1) = Inr (h2, Some d2, entries)"
      "list_all closing_ok entries"
      "count_list (concat (map fst entries)) ALL_PROBES_SENT
         = (if evs \<noteq> [] \<and> num_probes_in_flight d2 = 0 then 1 else 0)"
      "within_count options d2"
      "unat (num_replies d2) = unat (num_replies d1) + length evs"
      "length (sent (concat (map fst entries))) + unat (num_probes_in_flight d1)
         = unat (num_probes_in_flight d2) + length evs"
      "evs = [] \<longrightarrow> d2 = d1"
      "evs \<noteq> [] \<and> unat (count options) \<le> nat INT_MAX \<and> num_probes_in_flight d2 = 0
         \<longrightarrow> unat (num_replies d2) = unat (count options)"
    by blast
  have run: "run e skel (Some options) evs h1 pd1 = Inr (h2, Some d2, entries)"
    using r(1) d1(1) by simp
  have ok: "list_all closing_ok ((acts0, pd1) # entries)" using r(2) d1(1,2) by simp
  note one = entry_count[OF d1(2) first]
  have cnt: "count_list (concat (acts0 # map fst entries)) ALL_PROBES_SENT
               = (if num_probes_in_flight d2 = 0 then 1 else 0)"
  proof (cases "evs = []")
    case True
    with r(3,7) one show ?thesis by simp
  next
    case False
    then obtain y ys where "evs = y # ys" by (cases evs) auto
    with adm d1(1,7) have "0 < unat (num_probes_in_flight d1)" by (cases y) simp
    then have "num_probes_in_flight d1 \<noteq> 0" by (simp add: unat_gt_0)
    with one r(3) False show ?thesis by simp
  qed
  have rep: "unat (num_replies d2) = length evs" using r(5) d1(4) by simp
  have tot: "length (sent (concat (acts0 # map fst entries)))
               = length evs + unat (num_probes_in_flight d2)"
    using r(6) d1(7) by (simp add: sent_append)
  have le: "length (sent (concat (acts0 # map fst entries))) \<le> unat (count options)"
    using r(4) rep unfolding tot within_count_def by simp
  have fin: "sent acts0 \<noteq> [] \<and> unat (count options) \<le> nat INT_MAX
               \<and> num_probes_in_flight d2 = 0
             \<longrightarrow> length (sent (concat (acts0 # map fst entries))) = unat (count options)
                 \<and> length evs = unat (count options)"
  proof (intro impI, elim conjE)
    assume ne: "sent acts0 \<noteq> []" and im: "unat (count options) \<le> nat INT_MAX"
      and z: "num_probes_in_flight d2 = 0"
    from ne first have "num_probes_in_flight d1 \<noteq> 0" by simp
    with z r(7) have "evs \<noteq> []" by auto
    with r(8) im z rep have "length evs = unat (count options)" by simp
    with z show "length (sent (concat (acts0 # map fst entries))) = unat (count options)
                 \<and> length evs = unat (count options)"
      unfolding tot by simp
  qed
  from run ok cnt tot le fin show ?thesis by - (intro exI conjI, assumption+)
qed

theorem all_probes_sent_once_witness:
  "ping_step env0 all_ok [skeleton_with_delay (1 / 2)] ALGORITHM_INIT None 0 (Some (options_to (IPv4 1) 4))
     = Inr (0,
        [skeleton_with_delay (1 / 2), skeleton_with_delay (1 / 2), skeleton_with_delay 1,
         skeleton_with_delay (3 / 2)],
        Some \<lparr>num_replies = 0, num_losses = 0, num_probes_in_flight = 3,
           probes = [1, 2, 3], rtt_results = Some []\<rparr>,
        [Algorithm_throw ALGORITHM_INIT, Send_probe 1, Send_probe 2, Send_probe 3, Event_free])
   \<and> (0 :: nat) < length [skeleton_with_delay (1 / 2)]
   \<and> all_sent all_ok 0 (unat (count (options_to (IPv4 1) 4)))
   \<and> list_all storing
        [(timeout_event, all_ok), (reply_event 0 0 (IPv4 1), all_ok),
         (timeout_event, all_ok), (timeout_event, all_ok)]
   \<and> list_all sending
        [(timeout_event, all_ok), (reply_event 0 0 (IPv4 1), all_ok),
         (timeout_event, all_ok), (timeout_event, all_ok)]
   \<and> admissible env0 0 (Some (options_to (IPv4 1) 4))
        [(timeout_event, all_ok), (reply_event 0 0 (IPv4 1), all_ok),
         (timeout_event, all_ok), (timeout_event, all_ok)]
        [skeleton_with_delay (1 / 2), skeleton_with_delay (1 / 2), skeleton_with_delay 1,
         skeleton_with_delay (3 / 2)]
        (Some \<lparr>num_replies = 0, num_losses = 0, num_probes_in_flight = 3,
           probes = [1, 2, 3], rtt_results = Some []\<rparr>)
        (length (sent
           [Algorithm_throw ALGORITHM_INIT, Send_probe 1, Send_probe 2, Send_probe 3, Event_free]))
   \<and> (\<exists>h2 d2 entries.
         run env0 0 (Some (options_to (IPv4 1) 4))
             [(timeout_event, all_ok), (reply_event 0 0 (IPv4 1), all_ok),
         (timeout_event, all_ok), (timeout_event, all_ok)]
             [skeleton_with_delay (1 / 2), skeleton_with_delay (1 / 2), skeleton_with_delay 1,
         skeleton_with_delay (3 / 2)]
             (Some \<lparr>num_replies = 0, num_losses = 0, num_probes_in_flight = 3,
           probes = [1, 2, 3], rtt_results = Some []\<rparr>)
           = Inr (h2, Some d2, entries)
         \<and> list_all closing_ok
             (([Algorithm_throw ALGORITHM_INIT, Send_probe 1, Send_probe 2, Send_probe 3, Event_free],
               Some \<lparr>num_replies = 0, num_losses = 0, num_probes_in_flight = 3,
           probes = [1, 2, 3], rtt_results = Some []\<rparr>) # entries)
         \<and> num_probes_in_flight d2 = 0
         \<and> count_list
             (concat ([Algorithm_throw ALGORITHM_INIT, Send_probe 1, Send_probe 2, Send_probe 3, Event_free]
                      # map fst entries)) ALL_PROBES_SENT = 1
         \<and> length (sent
             (concat ([Algorithm_throw ALGORITHM_INIT, Send_probe 1, Send_probe 2, Send_probe 3, Event_free]
                      # map fst entries))) = 4
         \<and> length
             [(timeout_event, all_ok), (reply_event 0 0 (IPv4 1), all_ok),
         (timeout_event, all_ok), (timeout_event, all_ok)] = unat (count (options_to (IPv4 1) 4)))"
proof -
  let ?evs = "[(timeout_event, all_ok), (reply_event 0 0 (IPv4 1), all_ok),
         (timeout_event, all_ok), (timeout_event, all_ok)]"
  let ?h1 = "[skeleton_with_delay (1 / 2), skeleton_with_delay (1 / 2), skeleton_with_delay 1,
         skeleton_with_delay (3 / 2)]"
  let ?d1 = "\<lparr>num_replies = 0, num_losses = 0, num_probes_in_flight = 3,
           probes = [1, 2, 3], rtt_results = Some []\<rparr>"
  let ?acts0 = "[Algorithm_throw ALGORITHM_INIT, Send_probe 1, Send_probe 2, Send_probe 3, Event_free]"
  let ?o = "(options_to (IPv4 1) 4)"
  have init: "ping_step env0 all_ok [skeleton_with_delay (1 / 2)] ALGORITHM_INIT None 0 (Some ?o)
                = Inr (0, ?h1, Some ?d1, ?acts0)"
    by (simp add: eval_defs)
  have skel: "(0 :: nat) < length [skeleton_with_delay (1 / 2)]" by simp
  have all: "all_sent all_ok 0 (unat (count ?o))"
    by (simp add: all_sent_def all_ok_def list_all_iff)
  have st: "list_all storing ?evs" by (simp add: example_events)
  have sd: "list_all sending ?evs" by (simp add: sending_def all_ok_def)
  have adm: "admissible env0 0 (Some ?o) ?evs ?h1 (Some ?d1) (length (sent ?acts0))"
    by (simp add: eval_defs)
  have fin: "final_data (run env0 0 (Some ?o) ?evs ?h1 (Some ?d1))
               = Some \<lparr>num_replies = 4, num_losses = 3, num_probes_in_flight = 0,
                       probes = [1, 2, 3, 4], rtt_results = Some [0]\<rparr>"
    by (simp add: eval_defs final_data_def)
  from all_probes_sent_once[OF init skel all st sd adm]
  obtain h2 d2 entries where
    r: "run env0 0 (Some ?o) ?evs ?h1 (Some ?d1) = Inr (h2, Some d2, entries)"
      "list_all closing_ok ((?acts0, Some ?d1) # entries)"
      "count_list (concat (?acts0 # map fst entries)) ALL_PROBES_SENT
         = (if num_probes_in_flight d2 = 0 then 1 else 0)"
      "sent ?acts0 \<noteq> [] \<and> unat (count ?o) \<le> nat INT_MAX \<and> num_probes_in_flight d2 = 0
       \<longrightarrow> length (sent (concat (?acts0 # map fst entries))) = unat (count ?o)
           \<and> length ?evs = unat (count ?o)"
    by blast
  from fin have "d2 = \<lparr>num_replies = 4, num_losses = 3, num_probes_in_flight = 0,
                         probes = [1, 2, 3, 4], rtt_results = Some [0]\<rparr>"
    unfolding r(1) by (simp add: final_data_def)
  then have z: "num_probes_in_flight d2 = 0" by simp
  have c: "unat (count ?o) = 4" by (simp add: options_to_def)
  have im: "unat (count ?o) \<le> nat INT_MAX" by (simp add: options_to_def INT_MAX_def)
  from r(3) z have one: "count_list (concat (?acts0 # map fst entries)) ALL_PROBES_SENT = 1"
    by simp
  from r(4) z im have "length (sent (concat (?acts0 # map fst entries))) = unat (count ?o)"
    and len: "length ?evs = unat (count ?o)"
    by simp_all
  then have two: "length (sent (concat (?acts0 # map fst entries))) = 4" unfolding c by simp
  from init skel all st sd adm r(1,2) z one two len show ?thesis
    by - (intro conjI exI, assumption+)
qed

text \<open>
  Without these conditions \<open>PING_ALL_PROBES_SENT\<close> is raised although the \<open>count\<close> probes
  have not been sent. With a timeout of 3 s, an interval of 5 s and a count of 5 the
  initial burst is empty, and the invocation on \<open>ALGORITHM_INIT\<close> raises it and signals
  termination without a single probe. With an interval of 1 s and a count of 4000000000
  the difference \<open>count - num_replies\<close> is negative as an \<open>int\<close>, no probe follows the
  initial burst of three, and the third timeout raises it after three probes.
\<close>

theorem all_probes_sent_before_count:
  "ping_step env0 all_ok [skeleton_with_delay (1 / 2)] ALGORITHM_INIT None 0
       (Some ((options_to (IPv4 1) 5)\<lparr>interval := 5\<rparr>))
     = Inr (0, [skeleton_with_delay (1 / 2)], Some (data0 0 0),
            [Algorithm_throw ALGORITHM_INIT, ALL_PROBES_SENT, Raise_terminated, Event_free])
   \<and> count ((options_to (IPv4 1) 5)\<lparr>interval := 5\<rparr>) = 5
   \<and> final_data
        (run env0 0 (Some (options_to (IPv4 1) 4000000000))
           [(ALGORITHM_INIT, all_ok), (timeout_event, all_ok), (timeout_event, all_ok),
            (timeout_event, all_ok)]
           [skeleton_with_delay (1 / 2)] None)
       = Some \<lparr>num_replies = 3, num_losses = 3, num_probes_in_flight = 0,
               probes = [1, 2, 3], rtt_results = Some []\<rparr>
   \<and> sent (calls
        (run env0 0 (Some (options_to (IPv4 1) 4000000000))
           [(ALGORITHM_INIT, all_ok), (timeout_event, all_ok), (timeout_event, all_ok),
            (timeout_event, all_ok)]
           [skeleton_with_delay (1 / 2)] None))
       = [1, 2, 3]
   \<and> count_list (calls
        (run env0 0 (Some (options_to (IPv4 1) 4000000000))
           [(ALGORITHM_INIT, all_ok), (timeout_event, all_ok), (timeout_event, all_ok),
            (timeout_event, all_ok)]
           [skeleton_with_delay (1 / 2)] None)) ALL_PROBES_SENT
       = 1"
proof -
  have a: "ping_step env0 all_ok [skeleton_with_delay (1 / 2)] ALGORITHM_INIT None 0
       (Some ((options_to (IPv4 1) 5)\<lparr>interval := 5\<rparr>))
     = Inr (0, [skeleton_with_delay (1 / 2)], Some (data0 0 0),
            [Algorithm_throw ALGORITHM_INIT, ALL_PROBES_SENT, Raise_terminated, Event_free])"
    by (simp add: eval_defs data0_def ALL_PROBES_SENT_def)
  have b: "count ((options_to (IPv4 1) 5)\<lparr>interval := 5\<rparr>) = 5"
    by (simp add: options_to_def)
  have r: "run env0 0 (Some (options_to (IPv4 1) 4000000000))
           [(ALGORITHM_INIT, all_ok), (timeout_event, all_ok), (timeout_event, all_ok),
            (timeout_event, all_ok)]
           [skeleton_with_delay (1 / 2)] None
      = Inr ([skeleton_with_delay (1 / 2), skeleton_with_delay (1 / 2), skeleton_with_delay 1,
              skeleton_with_delay (3 / 2)],
             Some \<lparr>num_replies = 3, num_losses = 3, num_probes_in_flight = 0,
                    probes = [1, 2, 3], rtt_results = Some []\<rparr>,
             [([Algorithm_throw ALGORITHM_INIT, Send_probe 1, Send_probe 2, Send_probe 3,
                Event_free],
               Some \<lparr>num_replies = 0, num_losses = 0, num_probes_in_flight = 3,
                      probes = [1, 2, 3], rtt_results = Some []\<rparr>),
              ([Raise_event (Ping_event PING_TIMEOUT (PROBE_DATA (skeleton_with_delay (1 / 2)))),
                Algorithm_throw timeout_event, WAIT, Event_free],
               Some \<lparr>num_replies = 1, num_losses = 1, num_probes_in_flight = 2,
                      probes = [1, 2, 3], rtt_results = Some []\<rparr>),
              ([Raise_event (Ping_event PING_TIMEOUT (PROBE_DATA (skeleton_with_delay (1 / 2)))),
                Algorithm_throw timeout_event, WAIT, Event_free],
               Some \<lparr>num_replies = 2, num_losses = 2, num_probes_in_flight = 1,
                      probes = [1, 2, 3], rtt_results = Some []\<rparr>),
              ([Raise_event (Ping_event PING_TIMEOUT (PROBE_DATA (skeleton_with_delay (1 / 2)))),
                Algorithm_throw timeout_event, ALL_PROBES_SENT, Raise_terminated, Event_free],
               Some \<lparr>num_replies = 3, num_losses = 3, num_probes_in_flight = 0,
                      probes = [1, 2, 3], rtt_results = Some []\<rparr>)])"
    by (simp add: eval_defs ALL_PROBES_SENT_def WAIT_def)
  show ?thesis
    unfolding r by (simp add: a b final_data_def calls_def ALL_PROBES_SENT_def WAIT_def)
qed

subsection \<open>Round-trip time samples\<close>

text \<open>
  C5. Take one instance whose \<open>ALGORITHM_INIT\<close> has succeeded, followed by
  any sequence of replies and timeouts whose samples \<open>ping_handler\<close> can store. At the
  exit of every invocation the stored samples are the round-trip times of the replies
  that came from the destination, in their order; \<open>num_replies\<close> counts all events and
  \<open>num_losses\<close> the timeouts, so \<open>num_replies - num_losses\<close> is the number of samples
  plus the number of replies that came from elsewhere.
\<close>

theorem rtt_samples_from_destination:
  assumes init: "ping_step e orc0 h0 ALGORITHM_INIT pd0 skel (Some options)
                   = Inr (0, h1, pd1, acts0)"
    and evs: "list_all storing evs"
  shows "\<exists>h2 d2 entries.
           run e skel (Some options) evs h1 pd1 = Inr (h2, Some d2, entries)
           \<and> rtt_results d2
               = Some (map sample (filter (from_destination options) (map fst evs)))
           \<and> num_replies d2 = of_nat (length evs)
           \<and> num_losses d2 = of_nat (length (filter is_timeout (map fst evs)))
           \<and> num_replies d2 - num_losses d2
               = of_nat (length (filter (from_destination options) (map fst evs)))
                 + of_nat (length (filter (from_elsewhere options) (map fst evs)))"
proof -
  from step_init_data[OF init] obtain d1 where
    d1: "pd1 = Some d1" "num_replies d1 = 0" "num_losses d1 = 0" "rtt_results d1 = Some []"
    by blast
  from run_storing[OF evs d1(4), of e skel options h1] obtain h2 d2 entries where
    r: "run e skel (Some options) evs h1 (Some d1) = Inr (h2, Some d2, entries)"
      "rtt_results d2
         = Some ([] @ map sample (filter (from_destination options) (map fst evs)))"
      "num_replies d2 = num_replies d1 + of_nat (length evs)"
      "num_losses d2 = num_losses d1 + of_nat (length (filter is_timeout (map fst evs)))"
    by blast
  have "num_replies d2 - num_losses d2
          = of_nat (length (filter (from_destination options) (map fst evs)))
            + of_nat (length (filter (from_elsewhere options) (map fst evs)))"
    using r(3,4) d1(2,3) by (simp add: probe_event_kinds[OF evs, of options])
  with r d1 show ?thesis by (intro exI conjI) (assumption | simp)+
qed

theorem rtt_samples_from_destination_witness:
  "ping_step env0 all_ok [skeleton_with_delay (1 / 2)] ALGORITHM_INIT None 0
       (Some (options_to (IPv4 1) 2))
     = Inr (0, heap_after, Some (data_after 0 0 2 []),
            [Algorithm_throw ALGORITHM_INIT, Send_probe 1, Send_probe 2, Event_free])
   \<and> list_all storing
        [(reply_event ICMP_TIMXCEED ICMP_TIMXCEED_INTRANS (IPv4 9), all_ok),
         (reply_event 0 0 (IPv4 1), all_ok)]
   \<and> (\<exists>h2 d2 entries.
         run env0 0 (Some (options_to (IPv4 1) 2))
             [(reply_event ICMP_TIMXCEED ICMP_TIMXCEED_INTRANS (IPv4 9), all_ok),
              (reply_event 0 0 (IPv4 1), all_ok)]
             heap_after (Some (data_after 0 0 2 []))
           = Inr (h2, Some d2, entries)
         \<and> rtt_results d2 = Some [0]
         \<and> num_replies d2 = 2
         \<and> num_losses d2 = 0)"
proof -
  let ?evs = "[(reply_event ICMP_TIMXCEED ICMP_TIMXCEED_INTRANS (IPv4 9), all_ok),
               (reply_event 0 0 (IPv4 1), all_ok)]"
  have st: "list_all storing ?evs" by (simp add: example_events)
  have a: "\<not> from_destination (options_to (IPv4 1) 2)
               (reply_event ICMP_TIMXCEED ICMP_TIMXCEED_INTRANS (IPv4 9))"
    by (simp add: from_destination_def eval_defs)
  have b: "from_destination (options_to (IPv4 1) 2) (reply_event 0 0 (IPv4 1))"
    by (simp add: from_destination_def eval_defs)
  have c: "sample (reply_event 0 0 (IPv4 1)) = 0"
    by (simp add: sample_def eval_defs)
  have d: "\<not> is_timeout (reply_event t c a)" for t c a
    by (simp add: is_timeout_def reply_event_def)
  from rtt_samples_from_destination[OF example_init st]
  obtain h2 d2 entries where
    "run env0 0 (Some (options_to (IPv4 1) 2)) ?evs heap_after (Some (data_after 0 0 2 []))
       = Inr (h2, Some d2, entries)"
    "rtt_results d2
       = Some (map sample (filter (from_destination (options_to (IPv4 1) 2)) (map fst ?evs)))"
    "num_replies d2 = of_nat (length ?evs)"
    "num_losses d2 = of_nat (length (filter is_timeout (map fst ?evs)))"
    by blast
  then have "run env0 0 (Some (options_to (IPv4 1) 2)) ?evs heap_after
                 (Some (data_after 0 0 2 []))
               = Inr (h2, Some d2, entries)
             \<and> rtt_results d2 = Some [0] \<and> num_replies d2 = 2 \<and> num_losses d2 = 0"
    using a b c d by simp
  with example_init st show ?thesis by - (elim conjE, intro conjI exI, assumption+)
qed

text \<open>
  The invariant as section 8 states it fails after one reply from another host (here a
  time-exceeded message from 0.0.0.9 to a ping of 0.0.0.1): one reply, no loss, no sample.
\<close>

theorem rtt_invariant_counterexample:
  "final_data
     (run env0 0 (Some (options_to (IPv4 1) 2))
        [(ALGORITHM_INIT, all_ok),
         (reply_event ICMP_TIMXCEED ICMP_TIMXCEED_INTRANS (IPv4 9), all_ok)]
        [skeleton_with_delay (1 / 2)] None)
     = Some (data_after 1 0 1 [])
   \<and> \<not> rtt_invariant (data_after 1 0 1 [])"
  by (simp add: example_init example_elsewhere final_data_def rtt_invariant_def
        data_after_simps)

subsection \<open>Events of another type\<close>

text \<open>
  C6. An event whose type is none of the five the handler knows should be ignored. The
  handler leaves the \<open>switch\<close> with its local pointer \<open>data\<close> still null, and the
  statements after the \<open>switch\<close> read \<open>data->num_probes_in_flight\<close> through it:
  whatever the instance data and the options are, the invocation ends in a read through
  a null pointer instead of returning.
\<close>

theorem unrecognized_event_faults:
  "ping_loop_handler e orc h (OTHER_EVENT n) pdata skel opts = Inl NULL_DEREFERENCE"
  by (simp add: ping_loop_handler_def handler_switch_def handler_dispatch_def)

subsection \<open>The initial burst\<close>

text \<open>
  C7. On \<open>ALGORITHM_INIT\<close> with options, a positive interval, a positive framework
  timeout whose quotient by the interval, computed in doubles, has an integer part of at
  most \<open>INT_MAX\<close>, and a successful allocation of the data, the handler returns 0 and
  books \<open>min (floor q) count\<close> probes as in flight, where \<open>q\<close> is that quotient; when the
  skeleton is a valid probe and no dispatch of the batch fails, exactly that many clones
  are handed to \<open>pt_send_probe\<close> and recorded in \<open>probes\<close>.
\<close>

theorem initial_burst_size:
  assumes "0 < interval options" and "0 < network_timeout e"
    and "\<lfloor>double_div (network_timeout e) (interval options)\<rfloor> \<le> INT_MAX"
    and "data_create_ok orc"
  shows "\<exists>h1 d1 acts.
           ping_loop_handler e orc h ALGORITHM_INIT pdata probe_skel (Some options)
             = Inr (0, h1, Some d1, acts)
           \<and> unat (num_probes_in_flight d1)
               = min (nat \<lfloor>double_div (network_timeout e) (interval options)\<rfloor>)
                   (unat (count options))
           \<and> (probe_skel < length h
                \<and> all_sent orc 0
                     (min (nat \<lfloor>double_div (network_timeout e) (interval options)\<rfloor>)
                        (unat (count options)))
               \<longrightarrow> sent acts
                     = [length h ..< length h
                          + min (nat \<lfloor>double_div (network_timeout e) (interval options)\<rfloor>)
                              (unat (count options))]
                   \<and> probes d1 = sent acts)"
  using assms by (rule init_burst)

theorem initial_burst_size_witness:
  "0 < interval (options_to (IPv4 1) 5) \<and> 0 < network_timeout env0
   \<and> \<lfloor>double_div (network_timeout env0) (interval (options_to (IPv4 1) 5))\<rfloor> \<le> INT_MAX
   \<and> data_create_ok all_ok
   \<and> (\<exists>h1 d1 acts.
         ping_loop_handler env0 all_ok [skeleton_with_delay (1 / 2)] ALGORITHM_INIT None 0
             (Some (options_to (IPv4 1) 5))
           = Inr (0, h1, Some d1, acts)
         \<and> unat (num_probes_in_flight d1) = 3
         \<and> sent acts = [1, 2, 3]
         \<and> probes d1 = [1, 2, 3])"
proof -
  have a: "0 < interval (options_to (IPv4 1) 5)" by (simp add: options_to_def)
  have b: "0 < network_timeout env0" by (simp add: env0_def)
  have q: "double_div (network_timeout env0) (interval (options_to (IPv4 1) 5)) = 3"
    by (simp add: env0_def options_to_def double_defs)
  have c: "\<lfloor>double_div (network_timeout env0) (interval (options_to (IPv4 1) 5))\<rfloor> \<le> INT_MAX"
    unfolding q by (simp add: INT_MAX_def)
  have d: "data_create_ok all_ok" by (simp add: all_ok_def)
  have k: "min (nat \<lfloor>double_div (network_timeout env0) (interval (options_to (IPv4 1) 5))\<rfloor>)
               (unat (count (options_to (IPv4 1) 5))) = 3"
    unfolding q by (simp add: options_to_def)
  have all: "all_sent all_ok 0 3" by (simp add: all_sent_def all_ok_def list_all_iff)
  have up: "[length [skeleton_with_delay (1 / 2)] ..< length [skeleton_with_delay (1 / 2)] + 3]
              = [1, 2, 3]"
    by (simp add: upt_rec)
  from initial_burst_size[OF a b c d, of "[skeleton_with_delay (1 / 2)]" None 0]
  obtain h1 d1 acts where
    r: "ping_loop_handler env0 all_ok [skeleton_with_delay (1 / 2)] ALGORITHM_INIT None 0
          (Some (options_to (IPv4 1) 5)) = Inr (0, h1, Some d1, acts)"
      "unat (num_probes_in_flight d1) = 3"
      "0 < length [skeleton_with_delay (1 / 2)] \<and> all_sent all_ok 0 3
         \<longrightarrow> sent acts = [length [skeleton_with_delay (1 / 2)]
                            ..< length [skeleton_with_delay (1 / 2)] + 3]
             \<and> probes d1 = sent acts"
    unfolding k by blast
  from r(3) all have "sent acts = [1, 2, 3]" "probes d1 = [1, 2, 3]"
    unfolding up by simp_all
  with a b c d r(1,2) show ?thesis by (intro conjI exI) assumption+
qed

text \<open>
  The quotient is the one the machine computes. With a timeout of 3 s, the double
  nearest to 0.1 as interval (it is larger than 0.1, so that the exact quotient is below
  30) and a count of 40, the quotient in doubles is 30 and the handler books 30 probes,
  where the integer part of the exact quotient is 29.
\<close>

lemma initial_burst_rounded:
  "\<exists>h1 d1 acts.
     ping_loop_handler env0 all_ok [skeleton_with_delay (1 / 2)] ALGORITHM_INIT None 0
         (Some ((options_to (IPv4 1) 40)\<lparr>interval := 3602879701896397 / 36028797018963968\<rparr>))
       = Inr (0, h1, Some d1, acts)
     \<and> unat (num_probes_in_flight d1) = 30"
  "\<lfloor>network_timeout env0
      / interval ((options_to (IPv4 1) 40)\<lparr>interval := 3602879701896397 / 36028797018963968\<rparr>)\<rfloor>
     = 29"
proof -
  let ?o = "(options_to (IPv4 1) 40)\<lparr>interval := 3602879701896397 / 36028797018963968\<rparr>"
  have a: "0 < interval ?o" by simp
  have b: "0 < network_timeout env0" by (simp add: env0_def)
  have q: "double_div (network_timeout env0) (interval ?o) = 30"
    by (simp add: env0_def double_defs)
  have c: "\<lfloor>double_div (network_timeout env0) (interval ?o)\<rfloor> \<le> INT_MAX"
    unfolding q by (simp add: INT_MAX_def)
  have d: "data_create_ok all_ok" by (simp add: all_ok_def)
  have k: "min (nat \<lfloor>double_div (network_timeout env0) (interval ?o)\<rfloor>) (unat (count ?o)) = 30"
    unfolding q by (simp add: options_to_def)
  from init_burst[OF a b c d, of "[skeleton_with_delay (1 / 2)]" None 0]
  show "\<exists>h1 d1 acts.
     ping_loop_handler env0 all_ok [skeleton_with_delay (1 / 2)] ALGORITHM_INIT None 0 (Some ?o)
       = Inr (0, h1, Some d1, acts)
     \<and> unat (num_probes_in_flight d1) = 30"
    unfolding k by blast
  show "\<lfloor>network_timeout env0 / interval ?o\<rfloor> = 29" by (simp add: env0_def)
qed

text \<open>
  Without the bound the equation fails: with a timeout of 3 s, an interval of 1 ns and a
  count of 4000000000 the quotient 3000000000 does not fit an \<open>int\<close>, the conversion
  is undefined and the handler has no result.
\<close>

theorem initial_burst_overflow:
  "0 < interval ((options_to (IPv4 1) 4000000000)\<lparr>interval := 1 / 1000000000\<rparr>)
   \<and> 0 < network_timeout env0
   \<and> data_create_ok all_ok
   \<and> ping_loop_handler env0 all_ok [skeleton_with_delay (1 / 2)] ALGORITHM_INIT None 0
        (Some ((options_to (IPv4 1) 4000000000)\<lparr>interval := 1 / 1000000000\<rparr>))
       = Inl INT_CONVERSION_OVERFLOW"
  by (simp add: eval_defs)

subsection \<open>Dispatch\<close>

text \<open>
  C8. For every batch dispatched from a valid skeleton whose delay is not the sentinel,
  the store of probes after the batch is the store before it followed by the clones:
  nothing that existed is written, the skeleton is unchanged, and the i-th clone is the
  skeleton with the delay \<open>i * delay\<close>. When no dispatch of the batch fails there are
  exactly k clones, all recorded in \<open>probes\<close> and handed to \<open>pt_send_probe\<close> in their
  order. For the batch of 4 probes with skeleton delay 0.5 s the delays in the store are
  0.5 (the skeleton), 0.5, 1, 1.5 and 2.
\<close>

theorem staggered_delays:
  assumes "probe_skel < length h"
    and "probe_get_delay (h ! probe_skel) \<noteq> delay_best_effort e"
    and "send_ping_probes e orc h d probe_skel k = (ok, h1, d1, acts)"
  shows "\<exists>m. m \<le> unat k
           \<and> h1 = h @ map (staggered (h ! probe_skel)) [1 ..< 1 + m]
           \<and> h1 ! probe_skel = h ! probe_skel
           \<and> (all_sent orc 0 (unat k) \<longrightarrow>
                ok \<and> m = unat k
                \<and> probes d1 = probes d @ [length h ..< length h + m]
                \<and> acts = map Send_probe [length h ..< length h + m])"
proof -
  from send_ping_probes_loop_heap[OF assms(1) assms(3)[unfolded send_ping_probes_def]]
  obtain m where m: "0 + m \<le> max (unat k) 0"
    "h1 = h @ map (clone_of e (h ! probe_skel)) [0 + 1 ..< 0 + 1 + m]"
    "all_sent orc 0 (unat k) \<longrightarrow>
       ok \<and> m = unat k - 0
       \<and> probes d1 = probes d @ [length h ..< length h + m]
       \<and> acts = map Send_probe [length h ..< length h + m]"
    by blast
  have "clone_of e (h ! probe_skel) = staggered (h ! probe_skel)"
    using assms(2) by (simp add: clone_of_def fun_eq_iff)
  with m assms(1) show ?thesis
    by (intro exI[of _ m]) (simp add: nth_append)
qed

theorem staggered_delays_witness:
  "(0 :: nat) < length [skeleton_with_delay (1 / 2)]
   \<and> probe_get_delay ([skeleton_with_delay (1 / 2)] ! 0) \<noteq> delay_best_effort env0
   \<and> (\<exists>ok h1 d1 acts.
         send_ping_probes env0 all_ok [skeleton_with_delay (1 / 2)] (data0 0 0) 0 4
           = (ok, h1, d1, acts)
         \<and> map delay h1 = [1 / 2, 1 / 2, 1, 3 / 2, 2]
         \<and> h1 ! 0 = skeleton_with_delay (1 / 2)
         \<and> ok \<and> probes d1 = [1, 2, 3, 4]
         \<and> acts = [Send_probe 1, Send_probe 2, Send_probe 3, Send_probe 4])"
proof -
  let ?h = "[skeleton_with_delay (1 / 2)]"
  have a: "(0 :: nat) < length ?h" by simp
  have b: "probe_get_delay (?h ! 0) \<noteq> delay_best_effort env0"
    by (simp add: probe_get_delay_def skeleton_with_delay_def env0_def)
  have all: "all_sent all_ok 0 (unat (4 :: size_t))"
    by (simp add: all_sent_def all_ok_def list_all_iff)
  obtain ok h1 d1 acts where run:
    "send_ping_probes env0 all_ok ?h (data0 0 0) 0 4 = (ok, h1, d1, acts)"
    by (cases "send_ping_probes env0 all_ok ?h (data0 0 0) 0 4") auto
  from staggered_delays[OF a b run] obtain m where
    heap: "h1 = ?h @ map (staggered (?h ! 0)) [1 ..< 1 + m]" and
    full: "all_sent all_ok 0 (unat (4 :: size_t)) \<longrightarrow>
             ok \<and> m = unat (4 :: size_t)
             \<and> probes d1 = probes (data0 0 0) @ [length ?h ..< length ?h + m]
             \<and> acts = map Send_probe [length ?h ..< length ?h + m]"
    by blast
  from full all have ok: "ok" and mk: "m = unat (4 :: size_t)"
    and pr: "probes d1 = probes (data0 0 0) @ [length ?h ..< length ?h + m]"
    and ac: "acts = map Send_probe [length ?h ..< length ?h + m]"
    by blast+
  from mk have m4: "m = 4" by simp
  have up1: "[1 ..< 1 + m] = [1, 2, 3, 4]" unfolding m4 by (simp add: upt_rec)
  have up2: "[length ?h ..< length ?h + m] = [1, 2, 3, 4]" unfolding m4 by (simp add: upt_rec)
  have "map delay h1 = [1 / 2, 1 / 2, 1, 3 / 2, 2]"
    unfolding heap up1 by (simp add: staggered_def skeleton_with_delay_def probe_get_delay_def)
  moreover have "h1 ! 0 = skeleton_with_delay (1 / 2)"
    unfolding heap by simp
  moreover have "probes d1 = [1, 2, 3, 4]"
    unfolding pr up2 by (simp add: data0_def)
  moreover have "acts = [Send_probe 1, Send_probe 2, Send_probe 3, Send_probe 4]"
    unfolding ac up2 by simp
  ultimately have "map delay h1 = [1 / 2, 1 / 2, 1, 3 / 2, 2]
      \<and> h1 ! 0 = skeleton_with_delay (1 / 2) \<and> ok \<and> probes d1 = [1, 2, 3, 4]
      \<and> acts = [Send_probe 1, Send_probe 2, Send_probe 3, Send_probe 4]"
    using ok by simp
  with a b run show ?thesis by (intro conjI exI) (assumption | simp)+
qed

subsection \<open>Statistics\<close>

text \<open>
  C9. The mean deviation should be the sum of the exact absolute differences to the
  mean, divided by the number of samples. On the samples 0.25 and 0.75 (mean 0.5) that
  is 0.25, while \<open>compute_mean_deviation\<close> returns 0: each difference is converted to
  \<open>int\<close> for \<open>abs\<close> and loses its fractional part.
\<close>

theorem mean_deviation_truncates:
  "compute_mean_deviation [1 / 4, 3 / 4] = Inr 0
   \<and> spec_mean_deviation [1 / 4, 3 / 4] = 1 / 4"
  by (simp add: compute_mean_deviation_def compute_mean_def dynarray_get_size_def
        mean_loop.simps deviation_loop.simps double_to_int_def trunc_to_zero_def abs_c_def
        INT_MIN_def INT_MAX_def spec_mean_deviation_def spec_mean_def Let_def)

text \<open>
  C10. The statistics need at least one sample. On an empty array \<open>compute_minimum\<close>
  and \<open>compute_maximum\<close> read position 0, which does not exist, and \<open>compute_mean\<close>
  and \<open>compute_mean_deviation\<close> divide by the length 0; each of them has a result
  exactly when the array is not empty (the mean deviation also needs its conversions to
  \<open>int\<close> to fit). \<open>ping_dump_statistics\<close> tests \<open>rtt_results\<close> against the null
  pointer only: it reports an error for a null pointer and runs into the read of
  position 0 for an empty array.
\<close>

theorem statistics_need_samples:
  "compute_minimum [] = Inl OUT_OF_RANGE_READ
   \<and> compute_maximum [] = Inl OUT_OF_RANGE_READ
   \<and> compute_mean [] = Inl DIVISION_BY_ZERO
   \<and> compute_mean_deviation [] = Inl DIVISION_BY_ZERO
   \<and> ping_dump_statistics (d\<lparr>rtt_results := None\<rparr>) = Inr STATISTICS_ERROR
   \<and> ping_dump_statistics (d\<lparr>rtt_results := Some []\<rparr>) = Inl OUT_OF_RANGE_READ
   \<and> ((\<exists>v. compute_minimum xs = Inr v) = (xs \<noteq> []))
   \<and> ((\<exists>v. compute_maximum xs = Inr v) = (xs \<noteq> []))
   \<and> ((\<exists>v. compute_mean xs = Inr v) = (xs \<noteq> []))
   \<and> ((\<exists>f. compute_mean_deviation xs = Inl f \<and> f \<noteq> INT_CONVERSION_OVERFLOW) = (xs = []))"
proof -
  have "(\<exists>f. compute_mean_deviation xs = Inl f \<and> f \<noteq> INT_CONVERSION_OVERFLOW) = (xs = [])"
  proof (cases "xs = []")
    case True
    then show ?thesis
      by (simp add: compute_mean_deviation_def compute_mean_def dynarray_get_size_def)
  next
    case False
    then show ?thesis
      by (auto simp: compute_mean_deviation_def compute_mean_def dynarray_get_size_def Let_def
            split: sum.splits dest: deviation_loop_fault)
  qed
  then show ?thesis
    by (simp add: compute_minimum_def compute_maximum_def compute_mean_def
          compute_mean_deviation_def read_element_def dynarray_get_size_def
          ping_dump_statistics_def split: sum.splits)
qed

end
